theory Spec2Isabelle
  imports Complex_Main "HOL-Library.Log_Nat" "HOL-Library.Word"
begin

section \<open>mpc-bleeder: a shallow embedding of main.go\<close>

text \<open>
  The program adds a black bleed margin around card images. This theory embeds the
  functions of \<^verbatim>\<open>main.go\<close> one by one and proves the statements of the
  specification about them. Go's \<^verbatim>\<open>int\<close> is modelled by \<^typ>\<open>int\<close>:
  every integer the program computes is bounded by the pixel dimensions of an image that was
  decoded into memory, far below the point where a machine integer wraps.
\<close>

subsection \<open>Binary64 arithmetic\<close>

text \<open>
  \<^verbatim>\<open>float64\<close> values are modelled by the rationals they denote. Every
  operation of the program on them (conversion of a constant or of an integer, product,
  quotient) is the exact operation followed by rounding to the nearest value with a 53-bit
  significand, ties to even: \<open>fl64\<close>. The exponent range is not modelled; every value the
  program rounds has a magnitude between \<open>2\<^sup>-\<^sup>3\<close> and \<open>2\<^sup>6\<^sup>4\<close>,
  inside the normal range of binary64, where no overflow or gradual underflow occurs.
\<close>

definition expo :: "rat \<Rightarrow> int" where
  \<comment> \<open>for \<open>0 < x\<close>: the exponent \<open>e\<close> with \<open>2\<^sup>e \<le> x < 2\<^sup>e\<^sup>+\<^sup>1\<close>\<close>
  "expo x = (if 1 \<le> x then bitlen \<lfloor>x\<rfloor> - 1 else - bitlen (\<lceil>1 / x\<rceil> - 1))"

definition rne :: "rat \<Rightarrow> int" where
  \<comment> \<open>round to the nearest integer, ties to the even one\<close>
  "rne y = (let f = \<lfloor>y\<rfloor>; d = y - of_int f
            in if d < 1 / 2 then f
               else if 1 / 2 < d then f + 1
               else if even f then f else f + 1)"

definition fl64 :: "rat \<Rightarrow> rat" where
  "fl64 x = (if x = 0 then 0
             else let s = expo \<bar>x\<bar> - 52
                  in sgn x * of_int (rne (\<bar>x\<bar> / 2 powi s)) * 2 powi s)"

definition float64 :: "int \<Rightarrow> rat" where
  \<comment> \<open>the conversion \<^verbatim>\<open>float64(n)\<close>\<close>
  "float64 n = fl64 (of_int n)"

definition fmul :: "rat \<Rightarrow> rat \<Rightarrow> rat" where
  "fmul a b = fl64 (a * b)"

definition fdiv :: "rat \<Rightarrow> rat \<Rightarrow> rat" where
  "fdiv a b = fl64 (a / b)"

definition math_Round :: "rat \<Rightarrow> rat" where
  \<comment> \<open>\<^verbatim>\<open>math.Round\<close>: the nearest integer, halves away from zero; the result is
      an integer no larger in magnitude than the next binary64 integer, so it is exact\<close>
  "math_Round x = (if 0 \<le> x then of_int \<lfloor>x + 1 / 2\<rfloor> else - of_int \<lfloor>- x + 1 / 2\<rfloor>)"

definition int_of_float :: "rat \<Rightarrow> int" where
  \<comment> \<open>the conversion \<^verbatim>\<open>int(f)\<close>: the fraction is discarded (truncation towards zero)\<close>
  "int_of_float x = (if 0 \<le> x then \<lfloor>x\<rfloor> else \<lceil>x\<rceil>)"

definition quo :: "int \<Rightarrow> int \<Rightarrow> int" where
  \<comment> \<open>Go's integer \<^verbatim>\<open>/\<close>: the quotient truncated towards zero\<close>
  "quo a b = (if (a < 0) = (b < 0) then \<bar>a\<bar> div \<bar>b\<bar> else - (\<bar>a\<bar> div \<bar>b\<bar>))"

subsection \<open>Package-level variables and flags\<close>

definition widthNoBleed :: rat where
  "widthNoBleed = fl64 (248 / 100)"

definition bleedWidth :: rat where
  "bleedWidth = fl64 (24 / 100)"

definition supportedFileTypes :: "string list" where
  "supportedFileTypes = [''.png'', ''.jpg'', ''.jpeg'']"

definition cornerFix :: bool where
  "cornerFix = True"

text \<open>
  The three command-line flags \<^verbatim>\<open>-w\<close>, \<^verbatim>\<open>-fmt\<close> and
  \<^verbatim>\<open>-jcf\<close>, with the defaults of their declarations.
\<close>

record flags =
  OW_OUT :: bool
  OUT_FMT :: string
  JPG_CORNER_FIX :: bool

definition default_flags :: flags where
  "default_flags = \<lparr>OW_OUT = False, OUT_FMT = ''png'', JPG_CORNER_FIX = False\<rparr>"

subsection \<open>Points, rectangles, colours and images\<close>

text \<open>
  \<^verbatim>\<open>image.Point\<close> and \<^verbatim>\<open>image.Rectangle\<close>; the fields
  \<^verbatim>\<open>Min\<close> and \<^verbatim>\<open>Max\<close> of a rectangle are \<open>MinP\<close> and
  \<open>MaxP\<close> here.
\<close>

record point =
  X :: int
  Y :: int

record rectangle =
  MinP :: point
  MaxP :: point

definition Pt :: "int \<Rightarrow> int \<Rightarrow> point" where
  "Pt x y = \<lparr>X = x, Y = y\<rparr>"

definition image_Rect :: "int \<Rightarrow> int \<Rightarrow> int \<Rightarrow> int \<Rightarrow> rectangle" where
  \<comment> \<open>\<^verbatim>\<open>image.Rect\<close> swaps the coordinates into canonical order\<close>
  "image_Rect x0 y0 x1 y1 =
     (let (xa, xb) = (if x0 > x1 then (x1, x0) else (x0, x1));
          (ya, yb) = (if y0 > y1 then (y1, y0) else (y0, y1))
      in \<lparr>MinP = Pt xa ya, MaxP = Pt xb yb\<rparr>)"

definition Dx :: "rectangle \<Rightarrow> int" where
  "Dx r = X (MaxP r) - X (MinP r)"

definition Dy :: "rectangle \<Rightarrow> int" where
  "Dy r = Y (MaxP r) - Y (MinP r)"

definition Add_pt :: "point \<Rightarrow> point \<Rightarrow> point" where
  "Add_pt p q = Pt (X p + X q) (Y p + Y q)"

definition Sub_pt :: "point \<Rightarrow> point \<Rightarrow> point" where
  "Sub_pt p q = Pt (X p - X q) (Y p - Y q)"

definition Add_rect :: "rectangle \<Rightarrow> point \<Rightarrow> rectangle" where
  "Add_rect r p = \<lparr>MinP = Add_pt (MinP r) p, MaxP = Add_pt (MaxP r) p\<rparr>"

definition Empty :: "rectangle \<Rightarrow> bool" where
  "Empty r \<longleftrightarrow> X (MinP r) \<ge> X (MaxP r) \<or> Y (MinP r) \<ge> Y (MaxP r)"

definition ZR :: rectangle where
  "ZR = \<lparr>MinP = Pt 0 0, MaxP = Pt 0 0\<rparr>"

definition Intersect :: "rectangle \<Rightarrow> rectangle \<Rightarrow> rectangle" where
  "Intersect r s =
     (let r' = \<lparr>MinP = Pt (max (X (MinP r)) (X (MinP s))) (max (Y (MinP r)) (Y (MinP s))),
                MaxP = Pt (min (X (MaxP r)) (X (MaxP s))) (min (Y (MaxP r)) (Y (MaxP s)))\<rparr>
      in if Empty r' then ZR else r')"

definition In_rect :: "int \<Rightarrow> int \<Rightarrow> rectangle \<Rightarrow> bool" where
  \<comment> \<open>\<^verbatim>\<open>Point.In\<close>: the minimum is inside, the maximum outside\<close>
  "In_rect x y r \<longleftrightarrow> X (MinP r) \<le> x \<and> x < X (MaxP r) \<and> Y (MinP r) \<le> y \<and> y < Y (MaxP r)"

text \<open>
  A colour is known to the drawing code through the four results of its
  \<^verbatim>\<open>RGBA()\<close> method: alpha-premultiplied 16-bit values held in
  \<^verbatim>\<open>uint32\<close>. \<^verbatim>\<open>color.RGBA\<close> is the stored 8-bit form.
\<close>

record color =
  red :: "32 word"
  green :: "32 word"
  blue :: "32 word"
  alpha :: "32 word"

record rgba =
  cR :: "8 word"
  cG :: "8 word"
  cB :: "8 word"
  cA :: "8 word"

definition RGBA_of :: "rgba \<Rightarrow> color" where
  \<comment> \<open>\<^verbatim>\<open>color.RGBA.RGBA()\<close>: each byte \<open>v\<close> becomes \<open>v * 0x101\<close>\<close>
  "RGBA_of c = \<lparr>red = ucast (cR c) * 0x101, green = ucast (cG c) * 0x101,
                 blue = ucast (cB c) * 0x101, alpha = ucast (cA c) * 0x101\<rparr>"

definition to_rgba :: "color \<Rightarrow> rgba" where
  \<comment> \<open>the conversion of \<^verbatim>\<open>color.RGBAModel\<close>: the high byte of each value\<close>
  "to_rgba c = \<lparr>cR = ucast (drop_bit 8 (red c)), cG = ucast (drop_bit 8 (green c)),
                 cB = ucast (drop_bit 8 (blue c)), cA = ucast (drop_bit 8 (alpha c))\<rparr>"

definition BLACK :: rgba where
  "BLACK = \<lparr>cR = 0, cG = 0, cB = 0, cA = 255\<rparr>"

text \<open>
  An \<^verbatim>\<open>image.Image\<close> is its bounds and its \<^verbatim>\<open>At\<close> method
  (composed with \<^verbatim>\<open>RGBA()\<close>); an \<^verbatim>\<open>*image.RGBA\<close> is its
  rectangle and its pixel store, addressed by coordinates.
\<close>

record image =
  Bounds :: rectangle
  At :: "int \<Rightarrow> int \<Rightarrow> color"

record RGBA_image =
  Rect :: rectangle
  Pix :: "int \<Rightarrow> int \<Rightarrow> rgba"

definition NewRGBA :: "rectangle \<Rightarrow> RGBA_image" where
  \<comment> \<open>a zeroed pixel buffer; its allocation is taken to succeed\<close>
  "NewRGBA r = \<lparr>Rect = r, Pix = (\<lambda>x y. \<lparr>cR = 0, cG = 0, cB = 0, cA = 0\<rparr>)\<rparr>"

definition Uniform :: "rgba \<Rightarrow> image" where
  \<comment> \<open>\<^verbatim>\<open>image.Uniform\<close>: one colour on the rectangle from \<open>-10\<^sup>9\<close> to \<open>10\<^sup>9\<close>\<close>
  "Uniform c = \<lparr>Bounds = \<lparr>MinP = Pt (- 1000000000) (- 1000000000),
                             MaxP = Pt 1000000000 1000000000\<rparr>,
                 At = (\<lambda>x y. RGBA_of c)\<rparr>"

subsection \<open>Drawing\<close>

text \<open>
  \<^verbatim>\<open>draw.Draw(dst, r, src, sp, op)\<close> of the standard library: \<open>r\<close> is clipped
  to the destination and to the source (aligned so that \<open>r.Min\<close> in the destination
  is \<open>sp\<close> in the source), and every pixel of the clipped rectangle is replaced by
  the Porter-Duff composition of the source pixel with it. The channel arithmetic is that
  of the library's general path for an \<^verbatim>\<open>*image.RGBA\<close> destination without a
  mask, in \<^verbatim>\<open>uint32\<close>, stored with the conversion \<^verbatim>\<open>uint8(...)\<close>.
\<close>

datatype Op = Over | Src

definition m16 :: "32 word" where
  "m16 = 0xFFFF"

definition over_channel :: "8 word \<Rightarrow> 32 word \<Rightarrow> 32 word \<Rightarrow> 8 word" where
  "over_channel d s sa =
     (let a = (m16 - (sa * m16 div m16)) * 0x101
      in ucast (drop_bit 8 ((ucast d * a + s * m16) div m16)))"

definition src_channel :: "32 word \<Rightarrow> 8 word" where
  "src_channel s = ucast (drop_bit 8 (s * m16 div m16))"

definition compose :: "Op \<Rightarrow> color \<Rightarrow> rgba \<Rightarrow> rgba" where
  "compose op s d =
     (case op of
        Over \<Rightarrow> \<lparr>cR = over_channel (cR d) (red s) (alpha s),
                  cG = over_channel (cG d) (green s) (alpha s),
                  cB = over_channel (cB d) (blue s) (alpha s),
                  cA = over_channel (cA d) (alpha s) (alpha s)\<rparr>
      | Src \<Rightarrow> \<lparr>cR = src_channel (red s), cG = src_channel (green s),
                 cB = src_channel (blue s), cA = src_channel (alpha s)\<rparr>)"

definition clip :: "rectangle \<Rightarrow> rectangle \<Rightarrow> rectangle \<Rightarrow> point \<Rightarrow> rectangle" where
  "clip r dstb srcb sp = Intersect (Intersect r dstb) (Add_rect srcb (Sub_pt (MinP r) sp))"

definition Draw :: "RGBA_image \<Rightarrow> rectangle \<Rightarrow> image \<Rightarrow> point \<Rightarrow> Op \<Rightarrow> RGBA_image" where
  "Draw dst r src sp op =
     (let r' = clip r (Rect dst) (Bounds src) sp
      in dst\<lparr>Pix := (\<lambda>x y. if In_rect x y r'
                             then compose op (At src (x - X (MinP r) + X sp) (y - Y (MinP r) + Y sp))
                                    (Pix dst x y)
                             else Pix dst x y)\<rparr>)"

subsection \<open>Bleed geometry and composition\<close>

definition calculateBleedWidth :: "image \<Rightarrow> int" where
  "calculateBleedWidth img =
     (let imgBounds = Bounds img;
          cardWidth = Dx imgBounds
      in quo (int_of_float (math_Round (fdiv (fmul (float64 cardWidth) bleedWidth) widthNoBleed))) 2)"

definition fixCorners :: "RGBA_image \<Rightarrow> int \<Rightarrow> rectangle \<Rightarrow> RGBA_image" where
  "fixCorners img bw innerCardBounds =
     (let rectWidth = int_of_float (fmul (float64 bw) (fl64 (75 / 100)));
          blackImg = Uniform BLACK;
          ox = X (MinP innerCardBounds);
          oy = Y (MinP innerCardBounds);
          img = Draw img (image_Rect ox oy (ox + rectWidth) (oy + bw)) blackImg (Pt 0 0) Over;
          img = Draw img (image_Rect ox oy (ox + bw) (oy + rectWidth)) blackImg (Pt 0 0) Over;
          ox = X (MaxP innerCardBounds);
          img = Draw img (image_Rect ox oy (ox - rectWidth) (oy + bw)) blackImg (Pt 0 0) Over;
          img = Draw img (image_Rect ox oy (ox - bw) (oy + rectWidth)) blackImg (Pt 0 0) Over;
          oy = Y (MaxP innerCardBounds);
          img = Draw img (image_Rect ox oy (ox - rectWidth) (oy - bw)) blackImg (Pt 0 0) Over;
          img = Draw img (image_Rect ox oy (ox - bw) (oy - rectWidth)) blackImg (Pt 0 0) Over;
          ox = X (MinP innerCardBounds);
          img = Draw img (image_Rect ox oy (ox + rectWidth) (oy - bw)) blackImg (Pt 0 0) Over;
          img = Draw img (image_Rect ox oy (ox + bw) (oy - rectWidth)) blackImg (Pt 0 0) Over
      in img)"

definition createCardWithBleed :: "image \<Rightarrow> string \<Rightarrow> RGBA_image" where
  "createCardWithBleed cardImg inImgFormat =
     (let bleedEdgePx = calculateBleedWidth cardImg;
          cardWithBleedBounds =
            image_Rect 0 0 (Dx (Bounds cardImg) + bleedEdgePx * 2) (Dy (Bounds cardImg) + bleedEdgePx * 2);
          cardNoBleedBounds = Add_rect (Bounds cardImg) (Pt bleedEdgePx bleedEdgePx);
          cardWithBleed = NewRGBA cardWithBleedBounds;
          cardWithBleed = Draw cardWithBleed cardWithBleedBounds (Uniform BLACK) (Pt 0 0) Src;
          cardWithBleed = Draw cardWithBleed cardNoBleedBounds cardImg (Pt 0 0) Over
      in if cornerFix \<and> (inImgFormat = ''jpg'' \<or> inImgFormat = ''jpeg'')
         then fixCorners cardWithBleed bleedEdgePx cardNoBleedBounds
         else cardWithBleed)"

subsection \<open>Paths\<close>

text \<open>
  \<^verbatim>\<open>path.Ext\<close> (and \<^verbatim>\<open>filepath.Ext\<close>, the same scan where the
  separator is the slash) walks back from the end of the path until a slash, and returns the
  suffix that starts at the first dot it meets. \<open>ext_scan\<close> is that loop on the reversed
  path, with the characters already passed in \<open>acc\<close>.
\<close>

fun ext_scan :: "string \<Rightarrow> string \<Rightarrow> string" where
  "ext_scan [] acc = []"
| "ext_scan (c # cs) acc =
     (if c = CHR ''/'' then []
      else if c = CHR ''.'' then c # acc
      else ext_scan cs (c # acc))"

definition Ext :: "string \<Rightarrow> string" where
  "Ext p = ext_scan (rev p) []"

definition HasSuffix :: "string \<Rightarrow> string \<Rightarrow> bool" where
  "HasSuffix s suffix \<longleftrightarrow>
     length s \<ge> length suffix \<and> drop (length s - length suffix) s = suffix"

definition TrimSuffix :: "string \<Rightarrow> string \<Rightarrow> string" where
  "TrimSuffix s suffix =
     (if HasSuffix s suffix then take (length s - length suffix) s else s)"

definition Base :: "string \<Rightarrow> string" where
  \<comment> \<open>\<^verbatim>\<open>path.Base\<close>: trailing slashes are stripped, then the last element is taken\<close>
  "Base p =
     (if p = [] then ''.''
      else let p1 = rev (dropWhile (\<lambda>c. c = CHR ''/'') (rev p));
               p2 = rev (takeWhile (\<lambda>c. c \<noteq> CHR ''/'') (rev p1))
           in if p2 = [] then ''/'' else p2)"

subsection \<open>The environment: files, codecs, path joining\<close>

text \<open>
  A file system maps a path to a regular file with its bytes or to a directory with the
  entries \<^verbatim>\<open>os.ReadDir\<close> lists for it. The image codecs and
  \<^verbatim>\<open>path.Join\<close> belong to the standard library and are parameters of the model:
  \<open>Decode\<close> yields the image and its format name or fails; an encoder yields the bytes
  it wrote and whether it succeeded.
\<close>

record DirEntry =
  Name :: string
  IsDir :: bool

datatype node = File "8 word list" | Dir "DirEntry list"

type_synonym filesys = "string \<Rightarrow> node option"

record lib =
  Join :: "string \<Rightarrow> string \<Rightarrow> string"
  Decode :: "8 word list \<Rightarrow> (image \<times> string) option"
  png_Encode :: "RGBA_image \<Rightarrow> 8 word list \<times> bool"
  jpeg_Encode :: "RGBA_image \<Rightarrow> 8 word list \<times> bool"

datatype error =
  OpenFailed string
| DecodeFailed
| CreateFailed string
| EncodeFailed
| Unsupported string

text \<open>The lines the program prints, by kind.\<close>

datatype message =
  Skipping string
| Adding string
| FailedJob string error
| MkdirFailed
| Done string

definition image_Decode :: "lib \<Rightarrow> node \<Rightarrow> (image \<times> string) option" where
  \<comment> \<open>reading from a directory fails, and so does decoding it\<close>
  "image_Decode L nd = (case nd of File bs \<Rightarrow> Decode L bs | Dir es \<Rightarrow> None)"

definition os_Create :: "filesys \<Rightarrow> string \<Rightarrow> filesys option" where
  \<comment> \<open>creates or truncates a regular file; fails on a directory\<close>
  "os_Create fs p = (case fs p of Some (Dir es) \<Rightarrow> None | _ \<Rightarrow> Some (fs(p \<mapsto> File [])))"

definition os_MkdirAll :: "filesys \<Rightarrow> string \<Rightarrow> filesys option" where
  "os_MkdirAll fs p =
     (case fs p of
        None \<Rightarrow> Some (fs(p \<mapsto> Dir []))
      | Some (Dir es) \<Rightarrow> Some fs
      | Some (File bs) \<Rightarrow> None)"

definition write_encoded :: "filesys \<Rightarrow> string \<Rightarrow> 8 word list \<times> bool \<Rightarrow> error option \<times> filesys" where
  "write_encoded fs p enc =
     (case enc of (bs, ok) \<Rightarrow> (if ok then None else Some EncodeFailed, fs(p \<mapsto> File bs)))"

subsection \<open>Saving and the single-file pipeline\<close>

definition saveImage ::
  "flags \<Rightarrow> lib \<Rightarrow> filesys \<Rightarrow> string \<Rightarrow> RGBA_image \<Rightarrow> string \<Rightarrow> error option \<times> filesys" where
  "saveImage fl L fs outPath imgOut imgInFmt =
     (let imgOutFmt = (if OUT_FMT fl \<noteq> ''auto'' then OUT_FMT fl else imgInFmt);
          outPath = TrimSuffix outPath (Ext outPath) @ ''.'' @ imgOutFmt
      in case os_Create fs outPath of
           None \<Rightarrow> (Some (CreateFailed outPath), fs)
         | Some fs' \<Rightarrow>
             if imgOutFmt = ''png'' then write_encoded fs' outPath (png_Encode L imgOut)
             else if imgOutFmt = ''jpg'' \<or> imgOutFmt = ''jpeg''
             then write_encoded fs' outPath (jpeg_Encode L imgOut)
             else (Some (Unsupported imgOutFmt), fs'))"

definition handleWriteImage ::
  "flags \<Rightarrow> lib \<Rightarrow> filesys \<Rightarrow> string \<Rightarrow> string \<Rightarrow> error option \<times> filesys \<times> message list" where
  "handleWriteImage fl L fs inFilePath outFolderPath =
     (case fs inFilePath of
        None \<Rightarrow> (Some (OpenFailed inFilePath), fs, [])
      | Some inFile \<Rightarrow>
          (case image_Decode L inFile of
             None \<Rightarrow> (Some DecodeFailed, fs, [])
           | Some (img, newImgFormat) \<Rightarrow>
               (let newImg = createCardWithBleed img newImgFormat;
                    outImgBaseName = Base inFilePath;
                    outImgPath = Join L outFolderPath outImgBaseName
                in if OW_OUT fl \<and> fs outImgPath \<noteq> None
                   then (None, fs, [Skipping outImgBaseName])
                   else (case saveImage fl L fs outImgPath newImg newImgFormat of
                           (err, fs') \<Rightarrow> (err, fs', [Adding outImgBaseName])))))"

subsection \<open>Producer, worker and main\<close>

text \<open>
  The job channel is the list of paths sent on it, in order, and whether it was closed.
  A worker is given the jobs it receives from the channel, in the order it receives them; it
  reports the error of a job and goes on to the next.
\<close>

record chan =
  buf :: "string list"
  closed :: bool

fun queueImageJobs_loop :: "lib \<Rightarrow> string \<Rightarrow> DirEntry list \<Rightarrow> string list \<Rightarrow> string list" where
  "queueImageJobs_loop L inFolder [] sent = sent"
| "queueImageJobs_loop L inFolder (entry # entries) sent =
     (if \<not> IsDir entry \<and> List.member supportedFileTypes (Ext (Name entry))
      then queueImageJobs_loop L inFolder entries (sent @ [Join L inFolder (Name entry)])
      else queueImageJobs_loop L inFolder entries sent)"

definition queueImageJobs :: "lib \<Rightarrow> string \<Rightarrow> DirEntry list \<Rightarrow> chan \<Rightarrow> chan" where
  "queueImageJobs L inFolder entries jobs =
     \<lparr>buf = queueImageJobs_loop L inFolder entries (buf jobs), closed = True\<rparr>"

fun handleWriteImageWorker ::
  "flags \<Rightarrow> lib \<Rightarrow> string list \<Rightarrow> string \<Rightarrow> filesys \<times> message list \<Rightarrow> filesys \<times> message list" where
  "handleWriteImageWorker fl L [] outFolderPath st = st"
| "handleWriteImageWorker fl L (inFilePath # jobs) outFolderPath (fs, out) =
     (case handleWriteImage fl L fs inFilePath outFolderPath of
        (err, fs', msgs) \<Rightarrow>
          handleWriteImageWorker fl L jobs outFolderPath
            (fs', out @ msgs @ (case err of None \<Rightarrow> [] | Some e \<Rightarrow> [FailedJob inFilePath e])))"

text \<open>
  \<open>main\<close> returns the exit status, the file system and the printed lines. In directory
  mode the eight workers share one channel; the model runs the jobs one after the other in
  channel order, which is the schedule where each job ends before the next is received.
\<close>

definition main ::
  "flags \<Rightarrow> lib \<Rightarrow> filesys \<Rightarrow> string \<Rightarrow> string \<Rightarrow> nat \<times> filesys \<times> message list" where
  "main fl L fs inFileFolder outFolder =
     (case os_MkdirAll fs outFolder of
        None \<Rightarrow> (1, fs, [MkdirFailed])
      | Some fs0 \<Rightarrow>
          (case fs0 inFileFolder of
             Some (Dir entries) \<Rightarrow>
               (let jobs = queueImageJobs L inFileFolder entries \<lparr>buf = [], closed = False\<rparr>
                in case handleWriteImageWorker fl L (buf jobs) outFolder (fs0, []) of
                     (fs', out) \<Rightarrow> (0, fs', out @ [Done outFolder]))
           | _ \<Rightarrow>
               (case handleWriteImage fl L fs0 inFileFolder outFolder of
                  (err, fs', msgs) \<Rightarrow> (0, fs', msgs @ [Done outFolder]))))"

subsection \<open>The formulas of the specification\<close>

text \<open>
  The bleed width as the specification writes it, in exact arithmetic:
  \<open>floor(round(W * 0.24 / 2.48) / 2)\<close>.
\<close>

definition bleedPx_spec :: "int \<Rightarrow> int" where
  "bleedPx_spec W = \<lfloor>of_int (round (of_int W * (24 / 100) / (248 / 100) :: rat)) / (2 :: rat)\<rfloor>"

text \<open>
  A colour is opaque when its alpha is the maximum; the other values of a colour are at
  most its alpha, as the contract of \<^verbatim>\<open>RGBA()\<close> has it.
\<close>

definition opaque :: "color \<Rightarrow> bool" where
  "opaque c \<longleftrightarrow> alpha c = 0xFFFF \<and> red c \<le> 0xFFFF \<and> green c \<le> 0xFFFF \<and> blue c \<le> 0xFFFF"

text \<open>
  The backing on which the card is drawn. The fill with black is clipped to the bounds of
  \<^verbatim>\<open>image.Uniform\<close>, so it reaches the pixels with both coordinates below
  \<open>10\<^sup>9\<close>; a pixel of the new buffer beyond that keeps its zero value.
\<close>

definition backing :: "int \<Rightarrow> int \<Rightarrow> rgba" where
  "backing u v =
     (if u < 1000000000 \<and> v < 1000000000 then BLACK else \<lparr>cR = 0, cG = 0, cB = 0, cA = 0\<rparr>)"

text \<open>
  The eight rectangles of corner repair, two at each corner of the inner rectangle, one
  \<open>floor(0.75 * b)\<close> wide and \<open>b\<close> high and one \<open>b\<close> wide and \<open>floor(0.75 * b)\<close>
  high. \<open>corner_rects_outward\<close> places them as the specification says, outside the inner
  rectangle, in the bleed margin; \<open>corner_rects_inward\<close> places them inside it, over the
  corners of the original image.
\<close>

definition box :: "int \<Rightarrow> int \<Rightarrow> int \<Rightarrow> int \<Rightarrow> rectangle" where
  "box x0 y0 x1 y1 = \<lparr>MinP = \<lparr>X = x0, Y = y0\<rparr>, MaxP = \<lparr>X = x1, Y = y1\<rparr>\<rparr>"

definition corner_rects_outward :: "int \<Rightarrow> rectangle \<Rightarrow> rectangle list" where
  "corner_rects_outward b r =
     (let w = 3 * b div 4;
          x0 = X (MinP r); y0 = Y (MinP r); x1 = X (MaxP r); y1 = Y (MaxP r)
      in [box (x0 - w) (y0 - b) x0 y0, box (x0 - b) (y0 - w) x0 y0,
          box x1 (y0 - b) (x1 + w) y0, box x1 (y0 - w) (x1 + b) y0,
          box x1 y1 (x1 + w) (y1 + b), box x1 y1 (x1 + b) (y1 + w),
          box (x0 - w) y1 x0 (y1 + b), box (x0 - b) y1 x0 (y1 + w)])"

definition corner_rects_inward :: "int \<Rightarrow> rectangle \<Rightarrow> rectangle list" where
  "corner_rects_inward b r =
     (let w = 3 * b div 4;
          x0 = X (MinP r); y0 = Y (MinP r); x1 = X (MaxP r); y1 = Y (MaxP r)
      in [box x0 y0 (x0 + w) (y0 + b), box x0 y0 (x0 + b) (y0 + w),
          box (x1 - w) y0 x1 (y0 + b), box (x1 - b) y0 x1 (y0 + w),
          box (x1 - w) (y1 - b) x1 y1, box (x1 - b) (y1 - w) x1 y1,
          box x0 (y1 - b) (x0 + w) y1, box x0 (y1 - w) (x0 + b) y1])"

definition in_any :: "int \<Rightarrow> int \<Rightarrow> rectangle list \<Rightarrow> bool" where
  "in_any x y rs = list_ex (In_rect x y) rs"


subsection \<open>Example inputs\<close>

text \<open>An opaque white card of the given size, as a decoder returns it (origin at zero).\<close>

definition white_card :: "int \<Rightarrow> int \<Rightarrow> image" where
  "white_card w h =
     \<lparr>Bounds = image_Rect 0 0 w h,
      At = (\<lambda>x y. RGBA_of \<lparr>cR = 255, cG = 255, cB = 255, cA = 255\<rparr>)\<rparr>"

text \<open>A white pixel buffer of the given size.\<close>

definition white_buffer :: "int \<Rightarrow> int \<Rightarrow> RGBA_image" where
  "white_buffer w h =
     \<lparr>Rect = image_Rect 0 0 w h, Pix = (\<lambda>x y. \<lparr>cR = 255, cG = 255, cB = 255, cA = 255\<rparr>)\<rparr>"

text \<open>
  An environment for the examples: paths are joined with a slash; the one-byte file \<open>[1]\<close>
  decodes to a white 40 by 40 PNG, \<open>[2]\<close> to a white 40 by 40 JPEG, and anything else
  fails to decode; an encoder writes a tag for its format and the red byte of the pixel at
  \<open>(2, 2)\<close>, the first pixel of the original image inside the bleed margin.
\<close>

definition example_lib :: lib where
  "example_lib =
     \<lparr>Join = (\<lambda>d n. d @ ''/'' @ n),
      Decode = (\<lambda>bs. if bs = [1] then Some (white_card 40 40, ''png'')
                      else if bs = [2] then Some (white_card 40 40, ''jpeg'')
                      else None),
      png_Encode = (\<lambda>im. ([80, cR (Pix im 2 2)], True)),
      jpeg_Encode = (\<lambda>im. ([74, cR (Pix im 2 2)], True))\<rparr>"

definition example_fs :: "(string \<times> node) list \<Rightarrow> filesys" where
  "example_fs = map_of"

text \<open>
  The folder of the specification's directory scenario, and a file system that holds it
  beside a single file whose extension is not an image extension.
\<close>

definition example_entries :: "DirEntry list" where
  "example_entries =
     [\<lparr>Name = ''a.png'', IsDir = False\<rparr>, \<lparr>Name = ''b.txt'', IsDir = False\<rparr>,
      \<lparr>Name = ''c.jpg'', IsDir = False\<rparr>, \<lparr>Name = ''d'', IsDir = True\<rparr>]"

definition example_tree :: filesys where
  "example_tree =
     example_fs [(''x.txt'', File [1]), (''cards'', Dir example_entries),
                 (''cards/a.png'', File [1]), (''cards/b.txt'', File [7]),
                 (''cards/c.jpg'', File [2]), (''cards/d'', Dir [])]"

text \<open>
  A file system after an earlier run with the default flags on the JPEG \<open>in/a.jpg\<close>: the
  output of that run is \<open>out/a.png\<close>. And a batch with an unreadable file in the middle.
\<close>

definition example_rerun :: filesys where
  "example_rerun =
     example_fs [(''in/a.jpg'', File [2]), (''out'', Dir []), (''out/a.png'', File [80, 0])]"

definition example_batch :: filesys where
  "example_batch =
     example_fs [(''in/a.png'', File [1]), (''in/bad.png'', File [7]), (''in/c.jpg'', File [2]),
                 (''out'', Dir [])]"

text \<open>An input whose output path already holds a file with other contents.\<close>

definition example_existing :: filesys where
  "example_existing =
     example_fs [(''in/a.png'', File [1]), (''out'', Dir []), (''out/a.png'', File [9, 9])]"

subsection \<open>Rounding to binary64: exponent, error, monotonicity, exactness\<close>

lemma bitlen_pos: "0 < n \<Longrightarrow> 1 \<le> bitlen n"
  by (simp add: bitlen_alt_def)

lemma pow2_less_iff: "(2::rat) powi a < 2 powi b \<longleftrightarrow> a < b"
proof
  assume l: "(2::rat) powi a < 2 powi b"
  show "a < b"
  proof (rule ccontr)
    assume "\<not> a < b"
    then have "b \<le> a" by simp
    then have "(2::rat) powi b \<le> 2 powi a" by (rule power_int_increasing) simp
    with l show False by simp
  qed
next
  assume "a < b"
  then show "(2::rat) powi a < 2 powi b" by (rule power_int_strict_increasing) simp
qed

lemma pow2_le_iff: "(2::rat) powi a \<le> 2 powi b \<longleftrightarrow> a \<le> b"
  using pow2_less_iff [of b a] by (auto simp: not_less [symmetric])

lemma pow2_split: "(2::rat) powi (a + b) = 2 powi a * 2 powi b"
  by (simp add: power_int_add)

lemma pow2_52: "(2::rat) powi e = 2 ^ 52 * 2 powi (e - 52)"
proof -
  have "(2::rat) powi e = 2 powi (52 + (e - 52))" by simp
  also have "\<dots> = 2 powi 52 * 2 powi (e - 52)" by (rule pow2_split)
  finally show ?thesis by simp
qed

lemma pow2_53: "(2::rat) powi (e + 1) = 2 ^ 53 * 2 powi (e - 52)"
proof -
  have "e + 1 = 53 + (e - 52)" by simp
  then have "(2::rat) powi (e + 1) = 2 powi (53 + (e - 52))" by (rule arg_cong)
  also have "\<dots> = 2 powi 53 * 2 powi (e - 52)" by (rule pow2_split)
  finally show ?thesis by simp
qed

lemma expo_bounds_ge1:
  assumes "1 \<le> x"
  shows "2 powi expo x \<le> x" and "x < 2 powi (expo x + 1)"
proof -
  let ?n = "\<lfloor>x\<rfloor>"
  have n: "0 < ?n" using assms by simp
  have b: "1 \<le> bitlen ?n" using n by (rule bitlen_pos)
  have e: "expo x = bitlen ?n - 1" using assms by (simp add: expo_def)
  from bitlen_bounds [OF n]
  have lo: "2 ^ nat (bitlen ?n - 1) \<le> ?n" and hi: "?n < 2 ^ nat (bitlen ?n)" by simp_all
  have "(2::rat) powi expo x = 2 ^ nat (bitlen ?n - 1)"
    using b by (simp add: e power_int_nonneg_exp)
  also have "\<dots> = of_int (2 ^ nat (bitlen ?n - 1))" by simp
  also have "\<dots> \<le> of_int ?n" using lo by (simp only: of_int_le_iff)
  also have "\<dots> \<le> x" by simp
  finally show "2 powi expo x \<le> x" .
  have "?n + 1 \<le> 2 ^ nat (bitlen ?n)" using hi by simp
  then have "(of_int (?n + 1) :: rat) \<le> of_int (2 ^ nat (bitlen ?n))"
    by (simp only: of_int_le_iff)
  moreover have "x < of_int (?n + 1)" by linarith
  ultimately have "x < of_int (2 ^ nat (bitlen ?n))" by linarith
  also have "\<dots> = 2 powi (expo x + 1)"
    using b by (simp add: e power_int_nonneg_exp)
  finally show "x < 2 powi (expo x + 1)" .
qed

lemma expo_bounds_lt1:
  assumes "0 < x" "x < 1"
  shows "2 powi expo x \<le> x" and "x < 2 powi (expo x + 1)"
proof -
  let ?y = "1 / x"
  let ?m = "\<lceil>?y\<rceil> - 1"
  let ?k = "bitlen ?m"
  have y1: "1 < ?y" using assms by simp
  then have "1 < \<lceil>?y\<rceil>" by (simp add: less_ceiling_iff)
  then have m: "0 < ?m" by simp
  have k: "1 \<le> ?k" using m by (rule bitlen_pos)
  have e: "expo x = - ?k" using assms by (simp add: expo_def)
  from bitlen_bounds [OF m]
  have lo: "2 ^ nat (?k - 1) \<le> ?m" and hi: "?m < 2 ^ nat ?k" by simp_all
  have my: "of_int ?m < ?y" by linarith
  have ym: "?y \<le> of_int (?m + 1)" by simp
  have "?m + 1 \<le> 2 ^ nat ?k" using hi by simp
  then have "(of_int (?m + 1) :: rat) \<le> of_int (2 ^ nat ?k)" by (simp only: of_int_le_iff)
  with ym have "?y \<le> of_int (2 ^ nat ?k)" by (rule order_trans)
  then have yk: "?y \<le> 2 ^ nat ?k" by simp
  have "(2::rat) ^ nat ?k * x \<ge> 1"
    using yk assms(1) by (simp add: field_simps)
  then have "1 / 2 ^ nat ?k \<le> x" by (simp add: field_simps)
  moreover have "(2::rat) powi expo x = 1 / 2 ^ nat ?k"
    using k by (simp add: e power_int_minus_divide power_int_nonneg_exp)
  ultimately show "2 powi expo x \<le> x" by simp
  have "(of_int (2 ^ nat (?k - 1)) :: rat) \<le> of_int ?m" using lo by (simp only: of_int_le_iff)
  then have "(of_int (2 ^ nat (?k - 1)) :: rat) < ?y" using my by (rule le_less_trans)
  then have "(2::rat) ^ nat (?k - 1) < ?y" by simp
  then have "(2::rat) ^ nat (?k - 1) * x < 1" using assms(1) by (simp add: field_simps)
  then have "x < 1 / 2 ^ nat (?k - 1)" by (simp add: field_simps)
  moreover have "(2::rat) powi (expo x + 1) = 1 / 2 ^ nat (?k - 1)"
  proof -
    have "expo x + 1 = - (?k - 1)" by (simp add: e)
    then show ?thesis using k by (simp only: power_int_minus_divide) (simp add: power_int_nonneg_exp)
  qed
  ultimately show "x < 2 powi (expo x + 1)" by simp
qed

lemma expo_bounds:
  assumes "0 < x"
  shows "2 powi expo x \<le> x" and "x < 2 powi (expo x + 1)"
  using assms expo_bounds_ge1 [of x] expo_bounds_lt1 [of x] by (cases "1 \<le> x"; simp)+

lemma expo_mono:
  assumes x: "0 < x" and xy: "x \<le> y"
  shows "expo x \<le> expo y"
proof -
  have y: "0 < y" using x xy by simp
  have "(2::rat) powi expo x < 2 powi (expo y + 1)"
    using expo_bounds(1) [OF x] expo_bounds(2) [OF y] xy by linarith
  then have "expo x < expo y + 1" by (simp only: pow2_less_iff)
  then show ?thesis by simp
qed

lemma rne_of_int: "rne (of_int n) = n"
  by (simp add: rne_def Let_def)

lemma rne_err: "\<bar>of_int (rne y) - y\<bar> \<le> 1 / 2"
proof -
  have "of_int \<lfloor>y\<rfloor> \<le> y" "y < of_int \<lfloor>y\<rfloor> + 1" by linarith+
  then show ?thesis unfolding rne_def Let_def by (simp add: abs_le_iff)
qed

lemma rne_floor_le: "\<lfloor>y\<rfloor> \<le> rne y"
  unfolding rne_def Let_def by auto

lemma rne_le_floor: "rne y \<le> \<lfloor>y\<rfloor> + 1"
  unfolding rne_def Let_def by auto

lemma rne_mono:
  assumes "y \<le> z"
  shows "rne y \<le> rne z"
proof (cases "\<lfloor>y\<rfloor> = \<lfloor>z\<rfloor>")
  case True
  then show ?thesis using assms unfolding rne_def Let_def by (auto; linarith)
next
  case False
  then have "\<lfloor>y\<rfloor> < \<lfloor>z\<rfloor>" using floor_mono [OF assms] by simp
  then have "rne y \<le> \<lfloor>z\<rfloor>" using rne_le_floor [of y] by simp
  then show ?thesis using rne_floor_le [of z] by simp
qed

lemma fl64_pos_def:
  "0 < x \<Longrightarrow> fl64 x = of_int (rne (x / 2 powi (expo x - 52))) * 2 powi (expo x - 52)"
  by (simp add: fl64_def Let_def)

lemma scaled_bounds:
  assumes "0 < x"
  shows "2 ^ 52 \<le> x / 2 powi (expo x - 52)" and "x / 2 powi (expo x - 52) < 2 ^ 53"
proof -
  have p: "(0::rat) < 2 powi (expo x - 52)" by simp
  note a = pow2_52 [of "expo x"]
  note b = pow2_53 [of "expo x"]
  from expo_bounds(1) [OF assms] have "2 ^ 52 * 2 powi (expo x - 52) \<le> x" by (simp only: a)
  then show "2 ^ 52 \<le> x / 2 powi (expo x - 52)" using p by (simp add: pos_le_divide_eq)
  from expo_bounds(2) [OF assms] have "x < 2 ^ 53 * 2 powi (expo x - 52)" by (simp only: b)
  then show "x / 2 powi (expo x - 52) < 2 ^ 53" using p by (simp add: pos_divide_less_eq)
qed

lemma fl64_err:
  assumes "0 < x"
  shows "\<bar>fl64 x - x\<bar> \<le> x / 2 ^ 53"
proof -
  let ?p = "(2::rat) powi (expo x - 52)"
  let ?y = "x / ?p"
  have p: "0 < ?p" by simp
  have "fl64 x - x = (of_int (rne ?y) - ?y) * ?p"
    using assms by (simp add: fl64_pos_def algebra_simps)
  then have "\<bar>fl64 x - x\<bar> = \<bar>of_int (rne ?y) - ?y\<bar> * ?p"
    using p by (simp add: abs_mult)
  also have "\<dots> \<le> 1 / 2 * ?p"
    using rne_err [of ?y] p by (intro mult_right_mono) simp_all
  also have "\<dots> \<le> x / 2 ^ 53"
  proof -
    have "2 ^ 52 * ?p \<le> x" using scaled_bounds(1) [OF assms] p by (simp add: pos_le_divide_eq)
    then show ?thesis by simp
  qed
  finally show ?thesis .
qed

lemma fl64_range:
  assumes "0 < x"
  shows "2 powi expo x \<le> fl64 x" and "fl64 x \<le> 2 powi (expo x + 1)"
proof -
  let ?p = "(2::rat) powi (expo x - 52)"
  let ?y = "x / ?p"
  have p: "0 < ?p" by simp
  note a = pow2_52 [of "expo x"]
  note b = pow2_53 [of "expo x"]
  have "rne (of_int (2 ^ 52)) \<le> rne ?y"
    using scaled_bounds(1) [OF assms] by (intro rne_mono) simp
  then have "2 ^ 52 \<le> rne ?y" by (simp only: rne_of_int)
  then have "(of_int (2 ^ 52) :: rat) \<le> of_int (rne ?y)" by (simp only: of_int_le_iff)
  then have "2 ^ 52 * ?p \<le> of_int (rne ?y) * ?p" using p by (intro mult_right_mono) simp_all
  then show "2 powi expo x \<le> fl64 x" using assms by (simp only: fl64_pos_def a)
  have "rne ?y \<le> rne (of_int (2 ^ 53))"
    using scaled_bounds(2) [OF assms] by (intro rne_mono) simp
  then have "rne ?y \<le> 2 ^ 53" by (simp only: rne_of_int)
  then have "(of_int (rne ?y) :: rat) \<le> of_int (2 ^ 53)" by (simp only: of_int_le_iff)
  then have "of_int (rne ?y) * ?p \<le> 2 ^ 53 * ?p" using p by (intro mult_right_mono) simp_all
  then show "fl64 x \<le> 2 powi (expo x + 1)" using assms by (simp only: fl64_pos_def b)
qed

lemma fl64_pos:
  assumes "0 < x"
  shows "0 < fl64 x"
proof -
  have "(0::rat) < 2 powi expo x" by simp
  with fl64_range(1) [OF assms] show ?thesis by linarith
qed

lemma fl64_mono_pos:
  assumes "0 < x" "x \<le> y"
  shows "fl64 x \<le> fl64 y"
proof -
  have y: "0 < y" using assms by simp
  have e: "expo x \<le> expo y" using assms by (rule expo_mono)
  show ?thesis
  proof (cases "expo x = expo y")
    case True
    let ?p = "(2::rat) powi (expo y - 52)"
    have p: "0 < ?p" by simp
    have "x / ?p \<le> y / ?p" using assms(2) p by (simp add: divide_right_mono)
    then have "rne (x / ?p) \<le> rne (y / ?p)" by (rule rne_mono)
    then have "(of_int (rne (x / ?p)) :: rat) \<le> of_int (rne (y / ?p))"
      by (simp only: of_int_le_iff)
    then have "of_int (rne (x / ?p)) * ?p \<le> of_int (rne (y / ?p)) * ?p"
      using p by (intro mult_right_mono) simp_all
    then show ?thesis using assms(1) y True by (simp add: fl64_pos_def)
  next
    case False
    then have "expo x + 1 \<le> expo y" using e by simp
    then have "(2::rat) powi (expo x + 1) \<le> 2 powi expo y" by (simp only: pow2_le_iff)
    then show ?thesis using fl64_range(2) [OF assms(1)] fl64_range(1) [OF y] by linarith
  qed
qed

lemma fl64_exact_aux:
  assumes x: "x \<noteq> 0" and a: "\<bar>x\<bar> = of_int m * 2 powi k" and m: "m < 2 ^ 53"
  shows "fl64 x = x"
proof -
  define e where "e = expo \<bar>x\<bar>"
  define p where "p = (2::rat) powi (e - 52)"
  have p: "0 < p" by (simp add: p_def)
  have apos: "0 < \<bar>x\<bar>" using x by simp
  have "(of_int m :: rat) < of_int (2 ^ 53)" using m by (simp only: of_int_less_iff)
  then have "of_int m * 2 powi k < 2 ^ 53 * (2::rat) powi k"
    by (intro mult_strict_right_mono) simp_all
  also have "\<dots> = 2 powi (53 + k)" using pow2_split [of 53 k] by simp
  finally have "\<bar>x\<bar> < 2 powi (53 + k)" by (simp only: a)
  then have "(2::rat) powi e < 2 powi (53 + k)"
    using expo_bounds(1) [OF apos] unfolding e_def by linarith
  then have "e < 53 + k" by (simp only: pow2_less_iff)
  then have s: "0 \<le> k - (e - 52)" by simp
  define d where "d = nat (k - (e - 52))"
  have "(2::rat) powi k = 2 powi (k - (e - 52)) * p"
    unfolding p_def using pow2_split [of "k - (e - 52)" "e - 52"] by simp
  also have "(2::rat) powi (k - (e - 52)) = 2 ^ d"
    using s by (simp add: d_def power_int_nonneg_exp)
  finally have k: "(2::rat) powi k = 2 ^ d * p" .
  have "\<bar>x\<bar> / p = of_int m * (2 ^ d * p) / p" by (simp only: a k)
  also have "\<dots> = of_int m * 2 ^ d" using p by simp
  also have "\<dots> = of_int (m * 2 ^ d)" by simp
  finally have r: "rne (\<bar>x\<bar> / p) = m * 2 ^ d" by (simp only: rne_of_int)
  have "fl64 x = sgn x * of_int (rne (\<bar>x\<bar> / p)) * p"
    using x by (simp add: fl64_def Let_def p_def e_def)
  also have "\<dots> = sgn x * (of_int m * (2 ^ d * p))" by (simp add: r)
  also have "\<dots> = sgn x * \<bar>x\<bar>" by (simp only: a k)
  also have "\<dots> = x" by (simp only: sgn_mult_abs)
  finally show ?thesis .
qed

lemma fl64_exact:
  assumes "\<bar>n\<bar> < 2 ^ 53"
  shows "fl64 (of_int n * 2 powi k) = of_int n * 2 powi k"
proof (cases "n = 0")
  case True
  then show ?thesis by (simp add: fl64_def)
next
  case False
  have "\<bar>(of_int n :: rat) * 2 powi k\<bar> = of_int \<bar>n\<bar> * 2 powi k" by (simp add: abs_mult)
  moreover have "(of_int n :: rat) * 2 powi k \<noteq> 0" using False by simp
  ultimately show ?thesis using assms by (intro fl64_exact_aux [where m = "\<bar>n\<bar>" and k = k])
qed

lemma fl64_of_int: "\<bar>n\<bar> < 2 ^ 53 \<Longrightarrow> fl64 (of_int n) = of_int n"
  using fl64_exact [of n 0] by simp

subsection \<open>The bleed width\<close>

lemma fl64_024: "fl64 (24 / 100) = 8646911284551352 / 2 ^ 55"
  by code_simp

lemma fl64_248: "fl64 (248 / 100) = 5584463537939415 / 2 ^ 51"
  by code_simp

lemma bleedWidth_value: "bleedWidth = 8646911284551352 / 2 ^ 55"
  unfolding bleedWidth_def by (rule fl64_024)

lemma widthNoBleed_value: "widthNoBleed = 5584463537939415 / 2 ^ 51"
  unfolding widthNoBleed_def by (rule fl64_248)

lemma float64_exact: "\<bar>n\<bar> < 2 ^ 53 \<Longrightarrow> float64 n = of_int n"
  by (simp add: float64_def fl64_of_int)

lemma fl64_upper:
  assumes "0 < x"
  shows "fl64 x \<le> x * (1 + 1 / 2 ^ 53)"
proof -
  have "fl64 x \<le> x + x / 2 ^ 53" using fl64_err [OF assms] by linarith
  also have "\<dots> = x * (1 + 1 / 2 ^ 53)" by (simp add: algebra_simps)
  finally show ?thesis .
qed

lemma fl64_lower:
  assumes "0 < x"
  shows "x * (1 - 1 / 2 ^ 53) \<le> fl64 x"
proof -
  have "x * (1 - 1 / 2 ^ 53) = x - x / 2 ^ 53" by (simp add: algebra_simps)
  also have "\<dots> \<le> fl64 x" using fl64_err [OF assms] by linarith
  finally show ?thesis .
qed

text \<open>The constants of the error analysis.\<close>

lemma K_upper:
  "(8646911284551352 / 2 ^ 55) * (1 + 1 / 2 ^ 53) / (5584463537939415 / 2 ^ 51) * (1 + 1 / 2 ^ 53)
     \<le> (3 / 31 + 1 / (62 * 2 ^ 48) :: rat)"
  by simp

lemma K_lower:
  "(3 / 31 - 1 / (62 * 2 ^ 48) :: rat)
     \<le> (8646911284551352 / 2 ^ 55) * (1 - 1 / 2 ^ 53) / (5584463537939415 / 2 ^ 51) * (1 - 1 / 2 ^ 53)"
  by simp


lemma quotient_close:
  assumes W: "0 < W" "W < 2 ^ 48"
  defines "x \<equiv> fdiv (fmul (float64 W) bleedWidth) widthNoBleed"
  shows "of_int W * 3 / 31 - 1 / 62 < x" and "x < of_int W * 3 / 31 + 1 / 62"
proof -
  define w :: rat where "w = of_int W"
  define c1 :: rat where "c1 = 8646911284551352 / 2 ^ 55"
  define c2 :: rat where "c2 = 5584463537939415 / 2 ^ 51"
  define u :: rat where "u = 1 / 2 ^ 53"
  define p where "p = fl64 (w * c1)"
  have c1: "0 < c1" and c2: "0 < c2" by (simp_all add: c1_def c2_def)
  have u: "0 \<le> 1 + u" "0 \<le> 1 - u" by (simp_all add: u_def)
  have "(0::int) < W" by fact
  then have w0: "0 < w" unfolding w_def by (simp only: of_int_0_less_iff)
  have "W < 2 ^ 48" by fact
  then have "(of_int W :: rat) < of_int (2 ^ 48)" by (simp only: of_int_less_iff)
  then have w1: "w < 2 ^ 48" by (simp add: w_def)
  have fw: "float64 W = w" using W by (simp add: w_def float64_exact)
  have a0: "0 < w * c1" using w0 c1 by simp
  have p0: "0 < p" unfolding p_def using a0 by (rule fl64_pos)
  have y0: "0 < p / c2" using p0 c2 by simp
  have x: "x = fl64 (p / c2)"
    by (simp add: x_def fdiv_def fmul_def fw bleedWidth_value widthNoBleed_value p_def c1_def c2_def)
  have Kh: "c1 * (1 + u) / c2 * (1 + u) \<le> 3 / 31 + 1 / (62 * 2 ^ 48)"
    unfolding c1_def c2_def u_def by (rule K_upper)
  have Kl: "3 / 31 - 1 / (62 * 2 ^ 48) \<le> c1 * (1 - u) / c2 * (1 - u)"
    unfolding c1_def c2_def u_def by (rule K_lower)
  have "p \<le> w * c1 * (1 + u)" unfolding p_def u_def using a0 by (rule fl64_upper)
  then have "p / c2 \<le> w * c1 * (1 + u) / c2" using c2 by (simp add: divide_right_mono)
  then have "p / c2 * (1 + u) \<le> w * c1 * (1 + u) / c2 * (1 + u)"
    using u(1) by (rule mult_right_mono)
  moreover have "x \<le> p / c2 * (1 + u)" unfolding x u_def using y0 by (rule fl64_upper)
  ultimately have "x \<le> w * (c1 * (1 + u) / c2 * (1 + u))" by (simp add: mult.assoc)
  also have "\<dots> \<le> w * (3 / 31 + 1 / (62 * 2 ^ 48))"
    using Kh w0 by (intro mult_left_mono) simp_all
  also have "\<dots> < w * 3 / 31 + 1 / 62" using w1 by (simp add: algebra_simps)
  finally show "x < of_int W * 3 / 31 + 1 / 62" by (simp only: w_def)
  have "w * c1 * (1 - u) \<le> p" unfolding p_def u_def using a0 by (rule fl64_lower)
  then have "w * c1 * (1 - u) / c2 \<le> p / c2" using c2 by (simp add: divide_right_mono)
  then have "w * c1 * (1 - u) / c2 * (1 - u) \<le> p / c2 * (1 - u)"
    using u(2) by (rule mult_right_mono)
  moreover have "p / c2 * (1 - u) \<le> x" unfolding x u_def using y0 by (rule fl64_lower)
  ultimately have "w * (c1 * (1 - u) / c2 * (1 - u)) \<le> x" by (simp add: mult.assoc)
  moreover have "w * (3 / 31 - 1 / (62 * 2 ^ 48)) \<le> w * (c1 * (1 - u) / c2 * (1 - u))"
    using Kl w0 by (intro mult_left_mono) simp_all
  moreover have "w * 3 / 31 - 1 / 62 < w * (3 / 31 - 1 / (62 * 2 ^ 48))"
    using w1 by (simp add: algebra_simps)
  ultimately have "w * 3 / 31 - 1 / 62 < x" by linarith
  then show "of_int W * 3 / 31 - 1 / 62 < x" by (simp only: w_def)
qed

lemma round_3_31:
  assumes "0 < W"
    and lo: "of_int W * 3 / 31 - 1 / 62 < (x::rat)" and hi: "x < of_int W * 3 / 31 + 1 / 62"
  shows "\<lfloor>x + 1 / 2\<rfloor> = (6 * W + 31) div 62"
proof -
  define n where "n = (6 * W + 31) div 62"
  have "62 * n + 1 \<le> 6 * W + 31" and "6 * W + 31 \<le> 62 * n + 61"
    unfolding n_def by presburger+
  then have "(of_int (62 * n + 1) :: rat) \<le> of_int (6 * W + 31)"
    and "(of_int (6 * W + 31) :: rat) \<le> of_int (62 * n + 61)"
    by (simp_all only: of_int_le_iff)
  then have a: "62 * of_int n + 1 \<le> 6 * (of_int W :: rat) + 31"
    and b: "6 * (of_int W :: rat) + 31 \<le> 62 * of_int n + 61" by simp_all
  have "of_int n \<le> x + 1 / 2" using a lo by linarith
  moreover have "x + 1 / 2 < of_int n + 1" using b hi by linarith
  ultimately show ?thesis unfolding n_def [symmetric] by (intro floor_unique)
qed

lemma quo_2_nonneg: "0 \<le> n \<Longrightarrow> quo n 2 = n div 2"
  by (cases "n = 0") (simp_all add: quo_def)

lemma int_of_float_of_int: "int_of_float (of_int n) = n"
  by (simp add: int_of_float_def)

lemma math_Round_nonneg: "0 \<le> x \<Longrightarrow> math_Round x = of_int \<lfloor>x + 1 / 2\<rfloor>"
  by (simp add: math_Round_def)

lemma bleed_of_width:
  assumes W: "0 < W" "W < 2 ^ 48"
  shows "quo (int_of_float (math_Round (fdiv (fmul (float64 W) bleedWidth) widthNoBleed))) 2
         = (6 * W + 31) div 62 div 2"
proof -
  define x where "x = fdiv (fmul (float64 W) bleedWidth) widthNoBleed"
  note c = quotient_close [OF W, folded x_def]
  have "(0::int) < W" by fact
  then have "(0::rat) < of_int W" by (simp only: of_int_0_less_iff)
  then have x0: "0 \<le> x" using c(1) W(1) by linarith
  have r: "\<lfloor>x + 1 / 2\<rfloor> = (6 * W + 31) div 62" using W(1) c by (rule round_3_31)
  have "0 \<le> (6 * W + 31) div 62" using W(1) by simp
  then show ?thesis
    unfolding x_def [symmetric] by (simp add: math_Round_nonneg x0 r int_of_float_of_int quo_2_nonneg)
qed

lemma bleedPx_spec_eq:
  assumes "0 < W"
  shows "bleedPx_spec W = (6 * W + 31) div 62 div 2"
proof -
  have e: "of_int W * (24 / 100) / (248 / 100) = (of_int W * 3 / 31 :: rat)" by simp
  have "round (of_int W * 3 / 31 :: rat) = (6 * W + 31) div 62"
    unfolding round_def using assms by (intro round_3_31) simp_all
  then have "bleedPx_spec W = \<lfloor>(of_int ((6 * W + 31) div 62) :: rat) / of_int 2\<rfloor>"
    unfolding bleedPx_spec_def e by simp
  then show ?thesis by (simp only: floor_divide_of_int_eq)
qed

lemma calculateBleedWidth_Dx:
  "calculateBleedWidth img =
     quo (int_of_float (math_Round (fdiv (fmul (float64 (Dx (Bounds img))) bleedWidth) widthNoBleed))) 2"
  by (simp add: calculateBleedWidth_def Let_def)

text \<open>
  Claim C1. For a positive width \<open>W\<close> the bleed-width calculation returns
  \<open>floor(round(W * 0.24 / 2.48) / 2)\<close>, the formula evaluated in exact arithmetic, and 36
  for a width of 750. The binary64 computation of the program agrees with the exact formula
  for every width below \<open>2\<^sup>4\<^sup>8\<close>, a range that contains the width of every image
  a PNG or JPEG header can describe (at most \<open>2\<^sup>3\<^sup>1 - 1\<close>).
\<close>

theorem calculateBleedWidth_formula:
  assumes "0 < Dx (Bounds img)" "Dx (Bounds img) < 2 ^ 48"
  shows "calculateBleedWidth img = bleedPx_spec (Dx (Bounds img))
         \<and> (Dx (Bounds img) = 750 \<longrightarrow> calculateBleedWidth img = 36)"
  using assms by (simp add: calculateBleedWidth_Dx bleed_of_width bleedPx_spec_eq)

theorem calculateBleedWidth_formula_witness:
  "0 < Dx (Bounds (white_card 750 1050)) \<and> Dx (Bounds (white_card 750 1050)) < 2 ^ 48
   \<and> calculateBleedWidth (white_card 750 1050) = bleedPx_spec 750
   \<and> calculateBleedWidth (white_card 750 1050) = 36"
proof -
  have d: "Dx (Bounds (white_card 750 1050)) = 750"
    by (simp add: white_card_def image_Rect_def Dx_def Pt_def)
  show ?thesis using calculateBleedWidth_formula [of "white_card 750 1050"] by (simp add: d)
qed

text \<open>
  Rounding, scaling by a positive constant, \<^verbatim>\<open>math.Round\<close> and the halving are
  all monotone, so the computed width is monotone whatever the size of the operands.
\<close>

lemma widthNoBleed_pos: "0 < widthNoBleed"
  by (simp add: widthNoBleed_value)

lemma bleedWidth_pos: "0 < bleedWidth"
  by (simp add: bleedWidth_value)

lemma quotient_mono:
  assumes "0 < W1" "W1 \<le> W2"
  shows "0 < fdiv (fmul (float64 W1) bleedWidth) widthNoBleed"
    and "fdiv (fmul (float64 W1) bleedWidth) widthNoBleed
         \<le> fdiv (fmul (float64 W2) bleedWidth) widthNoBleed"
proof -
  have "(0::int) < W1" by fact
  then have w0: "(0::rat) < of_int W1" by (simp only: of_int_0_less_iff)
  have w: "(of_int W1 :: rat) \<le> of_int W2" using assms(2) by (simp only: of_int_le_iff)
  have f0: "0 < float64 W1" unfolding float64_def using w0 by (rule fl64_pos)
  have f: "float64 W1 \<le> float64 W2" unfolding float64_def using w0 w by (rule fl64_mono_pos)
  have a0: "0 < float64 W1 * bleedWidth" using f0 bleedWidth_pos by simp
  have a: "float64 W1 * bleedWidth \<le> float64 W2 * bleedWidth"
    using f bleedWidth_pos by (intro mult_right_mono) simp_all
  have p0: "0 < fmul (float64 W1) bleedWidth" unfolding fmul_def using a0 by (rule fl64_pos)
  have p: "fmul (float64 W1) bleedWidth \<le> fmul (float64 W2) bleedWidth"
    unfolding fmul_def using a0 a by (rule fl64_mono_pos)
  have y0: "0 < fmul (float64 W1) bleedWidth / widthNoBleed" using p0 widthNoBleed_pos by simp
  have y: "fmul (float64 W1) bleedWidth / widthNoBleed \<le> fmul (float64 W2) bleedWidth / widthNoBleed"
    using p widthNoBleed_pos by (intro divide_right_mono) simp_all
  show "0 < fdiv (fmul (float64 W1) bleedWidth) widthNoBleed"
    unfolding fdiv_def using y0 by (rule fl64_pos)
  show "fdiv (fmul (float64 W1) bleedWidth) widthNoBleed
         \<le> fdiv (fmul (float64 W2) bleedWidth) widthNoBleed"
    unfolding fdiv_def using y0 y by (rule fl64_mono_pos)
qed

lemma round_half_mono:
  assumes "0 < x" "x \<le> y"
  shows "quo (int_of_float (math_Round x)) 2 \<le> quo (int_of_float (math_Round y)) 2"
proof -
  have y: "0 < y" using assms by simp
  have "\<lfloor>x + 1 / 2\<rfloor> \<le> \<lfloor>y + 1 / 2\<rfloor>" using assms(2) by (intro floor_mono) simp
  moreover have "0 \<le> \<lfloor>x + 1 / 2\<rfloor>" using assms(1) by simp
  moreover have "0 \<le> \<lfloor>y + 1 / 2\<rfloor>" using y by simp
  ultimately show ?thesis
    using assms(1) y by (simp add: math_Round_nonneg int_of_float_of_int quo_2_nonneg zdiv_mono1)
qed

text \<open>
  Claim C9. The bleed width is monotonically non-decreasing in the width of the image: for
  positive widths \<open>W1 \<le> W2\<close>, the result for \<open>W1\<close> is at most the result for \<open>W2\<close>.
\<close>

theorem calculateBleedWidth_mono:
  assumes "0 < Dx (Bounds img1)" "Dx (Bounds img1) \<le> Dx (Bounds img2)"
  shows "calculateBleedWidth img1 \<le> calculateBleedWidth img2"
  unfolding calculateBleedWidth_Dx using quotient_mono [OF assms] by (rule round_half_mono)

theorem calculateBleedWidth_mono_witness:
  "0 < Dx (Bounds (white_card 40 56))
   \<and> Dx (Bounds (white_card 40 56)) \<le> Dx (Bounds (white_card 750 1050))
   \<and> calculateBleedWidth (white_card 40 56) \<le> calculateBleedWidth (white_card 750 1050)"
proof -
  have d: "Dx (Bounds (white_card 40 56)) = 40" "Dx (Bounds (white_card 750 1050)) = 750"
    by (simp_all add: white_card_def image_Rect_def Dx_def Pt_def)
  show ?thesis
    using calculateBleedWidth_mono [of "white_card 40 56" "white_card 750 1050"] by (simp add: d)
qed

subsection \<open>Pixels, drawing and corner repair\<close>

lemma mul_div_m16:
  assumes "s \<le> (0xFFFF :: 32 word)"
  shows "s * 0xFFFF div 0xFFFF = s"
proof -
  have u: "unat s \<le> 65535" using assms by (simp add: word_le_nat_alt)
  then have "unat s * 65535 < 2 ^ 32" by simp
  then have "unat (s * 0xFFFF) = unat s * 65535"
    by (simp add: unat_word_ariths)
  then have "unat (s * 0xFFFF div 0xFFFF) = unat s"
    by (simp add: unat_div)
  then show ?thesis by (simp only: word_unat_eq_iff)
qed

lemma over_channel_opaque:
  assumes "s \<le> 0xFFFF"
  shows "over_channel d s 0xFFFF = ucast (drop_bit 8 s)"
  using assms by (simp add: over_channel_def m16_def Let_def mul_div_m16)

lemma src_channel_eq:
  assumes "s \<le> 0xFFFF"
  shows "src_channel s = ucast (drop_bit 8 s)"
  using assms by (simp add: src_channel_def m16_def mul_div_m16)

lemma RGBA_of_BLACK: "RGBA_of BLACK = \<lparr>red = 0, green = 0, blue = 0, alpha = 0xFFFF\<rparr>"
  by (simp add: RGBA_of_def BLACK_def)

lemma compose_BLACK: "compose op (RGBA_of BLACK) d = BLACK"
proof -
  have "over_channel x 0 0xFFFF = 0" "over_channel x 0xFFFF 0xFFFF = 255"
    "src_channel 0 = 0" "src_channel 0xFFFF = 255" for x
    by (simp_all add: over_channel_opaque src_channel_eq)
  then show ?thesis
    by (cases op) (simp_all add: compose_def RGBA_of_BLACK, simp_all add: BLACK_def)
qed

lemma In_rect_ZR: "\<not> In_rect x y ZR"
  by (simp add: In_rect_def ZR_def Pt_def)

lemma In_rect_Intersect_iff: "In_rect x y (Intersect r s) \<longleftrightarrow> In_rect x y r \<and> In_rect x y s"
  by (auto simp: Intersect_def Let_def In_rect_def ZR_def Pt_def Empty_def split: if_splits)

lemma In_rect_Intersect: "In_rect x y (Intersect r s) \<Longrightarrow> In_rect x y r \<and> In_rect x y s"
  by (simp add: In_rect_Intersect_iff)

lemma Draw_Rect: "Rect (Draw dst r src sp op) = Rect dst"
  by (simp add: Draw_def Let_def)

lemma Draw_frame: "\<not> In_rect x y r \<Longrightarrow> Pix (Draw dst r src sp op) x y = Pix dst x y"
  by (auto simp: Draw_def Let_def clip_def dest: In_rect_Intersect)

lemma Draw_inside:
  "Pix (Draw dst r src sp op) x y =
     (if In_rect x y r \<and> In_rect x y (Rect dst)
         \<and> In_rect x y (Add_rect (Bounds src) (Sub_pt (MinP r) sp))
      then compose op (At src (x - X (MinP r) + X sp) (y - Y (MinP r) + Y sp)) (Pix dst x y)
      else Pix dst x y)"
  by (simp add: Draw_def Let_def clip_def In_rect_Intersect_iff)

lemma compose_Over_opaque: "opaque c \<Longrightarrow> compose Over c d = to_rgba c"
  by (simp add: opaque_def compose_def to_rgba_def over_channel_opaque)

lemma In_image_Rect:
  "In_rect x y (image_Rect x0 y0 x1 y1) \<longleftrightarrow>
     min x0 x1 \<le> x \<and> x < max x0 x1 \<and> min y0 y1 \<le> y \<and> y < max y0 y1"
  by (auto simp: image_Rect_def In_rect_def Pt_def Let_def)

lemma In_box: "In_rect x y (box x0 y0 x1 y1) \<longleftrightarrow> x0 \<le> x \<and> x < x1 \<and> y0 \<le> y \<and> y < y1"
  by (simp add: box_def In_rect_def)

text \<open>The width of the repair rectangles.\<close>

lemma fl64_075: "fl64 (75 / 100) = 3 / 4"
  by code_simp

lemma rectWidth_value:
  assumes "0 \<le> b" "b < 2 ^ 51"
  shows "int_of_float (fmul (float64 b) (fl64 (75 / 100))) = 3 * b div 4"
proof -
  have fb: "float64 b = of_int b" using assms by (intro float64_exact) simp
  have "\<bar>3 * b\<bar> < 2 ^ 53" using assms by simp
  then have ex: "fl64 (of_int (3 * b) * 2 powi (- 2)) = of_int (3 * b) * 2 powi (- 2)"
    by (rule fl64_exact)
  have q: "(of_int (3 * b) :: rat) * 2 powi (- 2) = of_int b * (3 / 4)"
    by (simp add: power_int_minus_divide)
  have "fmul (float64 b) (fl64 (75 / 100)) = fl64 (of_int b * (3 / 4))"
    by (simp only: fmul_def fb fl64_075)
  also have "\<dots> = of_int b * (3 / 4)" using ex by (simp only: q)
  also have "\<dots> = of_int (3 * b) / of_int 4" by simp
  finally have v: "fmul (float64 b) (fl64 (75 / 100)) = of_int (3 * b) / of_int 4" .
  have "0 \<le> (of_int (3 * b) :: rat) / of_int 4" using assms by simp
  then show ?thesis
    unfolding v by (simp only: int_of_float_def if_True floor_divide_of_int_eq)
qed

lemma fixCorners_Rect: "Rect (fixCorners img b inner) = Rect img"
  by (simp add: fixCorners_def Let_def Draw_Rect)

lemma In_image_Rect_pp:
  "0 \<le> w \<Longrightarrow> 0 \<le> h \<Longrightarrow>
   In_rect x y (image_Rect ox oy (ox + w) (oy + h)) = In_rect x y (box ox oy (ox + w) (oy + h))"
  by (auto simp: In_image_Rect In_box)

lemma In_image_Rect_mp:
  "0 \<le> w \<Longrightarrow> 0 \<le> h \<Longrightarrow>
   In_rect x y (image_Rect ox oy (ox - w) (oy + h)) = In_rect x y (box (ox - w) oy ox (oy + h))"
  by (auto simp: In_image_Rect In_box)

lemma In_image_Rect_mm:
  "0 \<le> w \<Longrightarrow> 0 \<le> h \<Longrightarrow>
   In_rect x y (image_Rect ox oy (ox - w) (oy - h)) = In_rect x y (box (ox - w) (oy - h) ox oy)"
  by (auto simp: In_image_Rect In_box)

lemma In_image_Rect_pm:
  "0 \<le> w \<Longrightarrow> 0 \<le> h \<Longrightarrow>
   In_rect x y (image_Rect ox oy (ox + w) (oy - h)) = In_rect x y (box ox (oy - h) (ox + w) oy)"
  by (auto simp: In_image_Rect In_box)

lemmas In_image_Rect_corner =
  In_image_Rect_pp In_image_Rect_mp In_image_Rect_mm In_image_Rect_pm

lemma fixCorners_frame:
  assumes "0 \<le> b" "b < 2 ^ 51" "\<not> in_any x y (corner_rects_inward b inner)"
  shows "Pix (fixCorners img b inner) x y = Pix img x y"
proof -
  define w where "w = 3 * b div 4"
  have w: "0 \<le> w" using assms(1) by (simp add: w_def)
  note iff = In_image_Rect_corner [OF w assms(1)] In_image_Rect_corner [OF assms(1) w]
  have out: "\<not> In_rect x y r" if "r \<in> set (corner_rects_inward b inner)" for r
    using assms(3) that by (auto simp: in_any_def list_ex_iff)
  have n: "\<not> In_rect x y (image_Rect (X (MinP inner)) (Y (MinP inner)) (X (MinP inner) + w) (Y (MinP inner) + b))"
    "\<not> In_rect x y (image_Rect (X (MinP inner)) (Y (MinP inner)) (X (MinP inner) + b) (Y (MinP inner) + w))"
    "\<not> In_rect x y (image_Rect (X (MaxP inner)) (Y (MinP inner)) (X (MaxP inner) - w) (Y (MinP inner) + b))"
    "\<not> In_rect x y (image_Rect (X (MaxP inner)) (Y (MinP inner)) (X (MaxP inner) - b) (Y (MinP inner) + w))"
    "\<not> In_rect x y (image_Rect (X (MaxP inner)) (Y (MaxP inner)) (X (MaxP inner) - w) (Y (MaxP inner) - b))"
    "\<not> In_rect x y (image_Rect (X (MaxP inner)) (Y (MaxP inner)) (X (MaxP inner) - b) (Y (MaxP inner) - w))"
    "\<not> In_rect x y (image_Rect (X (MinP inner)) (Y (MaxP inner)) (X (MinP inner) + w) (Y (MaxP inner) - b))"
    "\<not> In_rect x y (image_Rect (X (MinP inner)) (Y (MaxP inner)) (X (MinP inner) + b) (Y (MaxP inner) - w))"
    unfolding iff by (rule out, simp add: corner_rects_inward_def Let_def w_def)+
  show ?thesis
    unfolding fixCorners_def Let_def rectWidth_value [OF assms(1,2)] w_def [symmetric]
    by (simp only: Draw_frame n not_False_eq_True)
qed

lemma Bounds_white_card: "Bounds (white_card w h) = image_Rect 0 0 w h"
  by (simp add: white_card_def)

lemma opaque_white_card: "opaque (At (white_card w h) x y)"
  by (simp add: white_card_def opaque_def RGBA_of_def)

lemma Dx_image_Rect: "0 \<le> w \<Longrightarrow> Dx (image_Rect 0 0 w h) = w"
  by (simp add: Dx_def image_Rect_def Pt_def Let_def)

lemma Dy_image_Rect: "0 \<le> h \<Longrightarrow> Dy (image_Rect 0 0 w h) = h"
  by (simp add: Dy_def image_Rect_def Pt_def Let_def)

lemma MinP_image_Rect: "0 \<le> w \<Longrightarrow> 0 \<le> h \<Longrightarrow> MinP (image_Rect 0 0 w h) = Pt 0 0"
  by (simp add: image_Rect_def Pt_def Let_def)

lemma calculateBleedWidth_nonneg:
  assumes "0 \<le> Dx (Bounds img)"
  shows "0 \<le> calculateBleedWidth img"
proof (cases "Dx (Bounds img) = 0")
  case True
  then show ?thesis
    by (simp add: calculateBleedWidth_Dx float64_def fmul_def fdiv_def fl64_def math_Round_def
        int_of_float_def quo_def)
next
  case False
  then have p: "0 < Dx (Bounds img)" using assms by simp
  define x where "x = fdiv (fmul (float64 (Dx (Bounds img))) bleedWidth) widthNoBleed"
  have x: "0 < x" unfolding x_def using p by (intro quotient_mono(1) [where ?W2.0 = "Dx (Bounds img)"]) simp_all
  then have "0 \<le> \<lfloor>x + 1 / 2\<rfloor>" by simp
  then show ?thesis
    unfolding calculateBleedWidth_Dx x_def [symmetric]
    using x by (simp add: math_Round_nonneg int_of_float_of_int quo_2_nonneg)
qed

lemma createCardWithBleed_Rect:
  "Rect (createCardWithBleed img fmt) =
     image_Rect 0 0 (Dx (Bounds img) + calculateBleedWidth img * 2)
       (Dy (Bounds img) + calculateBleedWidth img * 2)"
  by (simp add: createCardWithBleed_def Let_def fixCorners_Rect Draw_Rect NewRGBA_def)

lemma inner_pixel:
  assumes B: "Bounds img = image_Rect 0 0 W H" and W: "0 < W" and H: "0 < H"
    and b: "0 \<le> b" and x: "0 \<le> x" "x < W" and y: "0 \<le> y" "y < H"
    and R: "Rect dst = image_Rect 0 0 (W + b * 2) (H + b * 2)"
  shows "Pix (Draw dst (Add_rect (Bounds img) (Pt b b)) img (Pt 0 0) Over) (b + x) (b + y)
         = compose Over (At img x y) (Pix dst (b + x) (b + y))"
  using W H b x y
  by (simp add: Draw_inside B R In_rect_def image_Rect_def Add_rect_def Add_pt_def Sub_pt_def Pt_def Let_def)

lemma Draw_black:
  "Pix (Draw dst r (Uniform BLACK) (Pt 0 0) op) u v =
     (if In_rect u v r \<and> In_rect u v (Rect dst)
         \<and> u < X (MinP r) + 1000000000 \<and> v < Y (MinP r) + 1000000000
      then BLACK else Pix dst u v)"
proof -
  have "In_rect u v (Add_rect (Bounds (Uniform BLACK)) (Sub_pt (MinP r) (Pt 0 0)))
      \<longleftrightarrow> X (MinP r) - 1000000000 \<le> u \<and> u < X (MinP r) + 1000000000
        \<and> Y (MinP r) - 1000000000 \<le> v \<and> v < Y (MinP r) + 1000000000"
    by (auto simp: Uniform_def In_rect_def Add_rect_def Add_pt_def Sub_pt_def Pt_def)
  moreover have "In_rect u v r \<Longrightarrow> X (MinP r) - 1000000000 \<le> u \<and> Y (MinP r) - 1000000000 \<le> v"
    by (simp add: In_rect_def)
  moreover have "At (Uniform BLACK) a b = RGBA_of BLACK" for a b by (simp add: Uniform_def)
  ultimately show ?thesis by (auto simp: Draw_inside compose_BLACK)
qed

lemma fill_backing:
  assumes "0 \<le> w" "0 \<le> h" "In_rect u v (image_Rect 0 0 w h)"
  shows "Pix (Draw (NewRGBA (image_Rect 0 0 w h)) (image_Rect 0 0 w h) (Uniform BLACK) (Pt 0 0) Src) u v
         = backing u v"
proof -
  have m: "X (MinP (image_Rect 0 0 w h)) = 0" "Y (MinP (image_Rect 0 0 w h)) = 0"
    using assms(1,2) by (simp_all add: MinP_image_Rect Pt_def)
  have n: "Rect (NewRGBA (image_Rect 0 0 w h)) = image_Rect 0 0 w h"
    "Pix (NewRGBA (image_Rect 0 0 w h)) u v = \<lparr>cR = 0, cG = 0, cB = 0, cA = 0\<rparr>"
    by (simp_all add: NewRGBA_def)
  show ?thesis
    unfolding Draw_black m n using assms(3) by (simp add: backing_def)
qed

text \<open>Painting a corner rectangle: a pixel in it becomes black, a black pixel stays black.\<close>

lemma paint_iff:
  "Pix (Draw dst r (Uniform BLACK) (Pt 0 0) Over) u v = BLACK \<longleftrightarrow>
     (In_rect u v r \<and> In_rect u v (Rect dst)
        \<and> u < X (MinP r) + 1000000000 \<and> v < Y (MinP r) + 1000000000)
     \<or> Pix dst u v = BLACK"
  by (auto simp: Draw_black)

lemma painted_image_Rect:
  assumes "In_rect u v (image_Rect x0 y0 x1 y1)" and "In_rect u v d"
    and "\<bar>x1 - x0\<bar> \<le> 1000000000" and "\<bar>y1 - y0\<bar> \<le> 1000000000"
  shows "In_rect u v (image_Rect x0 y0 x1 y1) \<and> In_rect u v d
     \<and> u < X (MinP (image_Rect x0 y0 x1 y1)) + 1000000000
     \<and> v < Y (MinP (image_Rect x0 y0 x1 y1)) + 1000000000"
  using assms by (auto simp: image_Rect_def In_rect_def Pt_def Let_def split: if_splits)

lemma fixCorners_paints:
  assumes b: "0 \<le> b" "b \<le> 1000000000"
    and i: "in_any u v (corner_rects_inward b inner)" and d: "In_rect u v (Rect img)"
  shows "Pix (fixCorners img b inner) u v = BLACK"
proof -
  define w where "w = 3 * b div 4"
  have w: "0 \<le> w" "w \<le> 1000000000" using b by (simp_all add: w_def)
  have b51: "b < 2 ^ 51" using b(2) by simp
  note iff = In_image_Rect_corner [OF w(1) b(1)] In_image_Rect_corner [OF b(1) w(1)]
  let ?x0 = "X (MinP inner)" and ?y0 = "Y (MinP inner)"
  let ?x1 = "X (MaxP inner)" and ?y1 = "Y (MaxP inner)"
  let ?R1 = "image_Rect ?x0 ?y0 (?x0 + w) (?y0 + b)" and ?R2 = "image_Rect ?x0 ?y0 (?x0 + b) (?y0 + w)"
  let ?R3 = "image_Rect ?x1 ?y0 (?x1 - w) (?y0 + b)" and ?R4 = "image_Rect ?x1 ?y0 (?x1 - b) (?y0 + w)"
  let ?R5 = "image_Rect ?x1 ?y1 (?x1 - w) (?y1 - b)" and ?R6 = "image_Rect ?x1 ?y1 (?x1 - b) (?y1 - w)"
  let ?R7 = "image_Rect ?x0 ?y1 (?x0 + w) (?y1 - b)" and ?R8 = "image_Rect ?x0 ?y1 (?x0 + b) (?y1 - w)"
  have D: "In_rect u v ?R1 \<or> In_rect u v ?R2 \<or> In_rect u v ?R3 \<or> In_rect u v ?R4
         \<or> In_rect u v ?R5 \<or> In_rect u v ?R6 \<or> In_rect u v ?R7 \<or> In_rect u v ?R8"
    using i unfolding iff by (simp add: in_any_def corner_rects_inward_def Let_def w_def)
  have a: "\<bar>(?x0 + w) - ?x0\<bar> \<le> 1000000000" "\<bar>(?x0 + b) - ?x0\<bar> \<le> 1000000000"
    "\<bar>(?x1 - w) - ?x1\<bar> \<le> 1000000000" "\<bar>(?x1 - b) - ?x1\<bar> \<le> 1000000000"
    "\<bar>(?y0 + w) - ?y0\<bar> \<le> 1000000000" "\<bar>(?y0 + b) - ?y0\<bar> \<le> 1000000000"
    "\<bar>(?y1 - w) - ?y1\<bar> \<le> 1000000000" "\<bar>(?y1 - b) - ?y1\<bar> \<le> 1000000000"
    using w b by simp_all
  note H = painted_image_Rect [OF _ d a(1) a(6)] painted_image_Rect [OF _ d a(2) a(5)]
    painted_image_Rect [OF _ d a(3) a(6)] painted_image_Rect [OF _ d a(4) a(5)]
    painted_image_Rect [OF _ d a(3) a(8)] painted_image_Rect [OF _ d a(4) a(7)]
    painted_image_Rect [OF _ d a(1) a(8)] painted_image_Rect [OF _ d a(2) a(7)]
  have g: "Pix (fixCorners img b inner) u v = BLACK" if "h"
    and "h \<Longrightarrow> In_rect u v r \<and> In_rect u v (Rect img)
        \<and> u < X (MinP r) + 1000000000 \<and> v < Y (MinP r) + 1000000000"
    and "r = ?R1 \<or> r = ?R2 \<or> r = ?R3 \<or> r = ?R4 \<or> r = ?R5 \<or> r = ?R6 \<or> r = ?R7 \<or> r = ?R8"
    for h r
    unfolding fixCorners_def Let_def rectWidth_value [OF b(1) b51] w_def [symmetric]
      paint_iff Draw_Rect
    using that(2) [OF that(1)] that(3) by (elim disjE) simp_all
  from D show ?thesis
  proof (elim disjE)
    assume h: "In_rect u v ?R1"
    have e: "?R1 = ?R1 \<or> ?R1 = ?R2 \<or> ?R1 = ?R3 \<or> ?R1 = ?R4 \<or> ?R1 = ?R5 \<or> ?R1 = ?R6 \<or> ?R1 = ?R7 \<or> ?R1 = ?R8"
      by (rule disjI1, rule refl)
    show ?thesis by (rule g [OF h H(1) e])
  next
    assume h: "In_rect u v ?R2"
    have e: "?R2 = ?R1 \<or> ?R2 = ?R2 \<or> ?R2 = ?R3 \<or> ?R2 = ?R4 \<or> ?R2 = ?R5 \<or> ?R2 = ?R6 \<or> ?R2 = ?R7 \<or> ?R2 = ?R8"
      by (rule disjI2, rule disjI1, rule refl)
    show ?thesis by (rule g [OF h H(2) e])
  next
    assume h: "In_rect u v ?R3"
    have e: "?R3 = ?R1 \<or> ?R3 = ?R2 \<or> ?R3 = ?R3 \<or> ?R3 = ?R4 \<or> ?R3 = ?R5 \<or> ?R3 = ?R6 \<or> ?R3 = ?R7 \<or> ?R3 = ?R8"
      by (rule disjI2, rule disjI2, rule disjI1, rule refl)
    show ?thesis by (rule g [OF h H(3) e])
  next
    assume h: "In_rect u v ?R4"
    have e: "?R4 = ?R1 \<or> ?R4 = ?R2 \<or> ?R4 = ?R3 \<or> ?R4 = ?R4 \<or> ?R4 = ?R5 \<or> ?R4 = ?R6 \<or> ?R4 = ?R7 \<or> ?R4 = ?R8"
      by (rule disjI2, rule disjI2, rule disjI2, rule disjI1, rule refl)
    show ?thesis by (rule g [OF h H(4) e])
  next
    assume h: "In_rect u v ?R5"
    have e: "?R5 = ?R1 \<or> ?R5 = ?R2 \<or> ?R5 = ?R3 \<or> ?R5 = ?R4 \<or> ?R5 = ?R5 \<or> ?R5 = ?R6 \<or> ?R5 = ?R7 \<or> ?R5 = ?R8"
      by (rule disjI2, rule disjI2, rule disjI2, rule disjI2, rule disjI1, rule refl)
    show ?thesis by (rule g [OF h H(5) e])
  next
    assume h: "In_rect u v ?R6"
    have e: "?R6 = ?R1 \<or> ?R6 = ?R2 \<or> ?R6 = ?R3 \<or> ?R6 = ?R4 \<or> ?R6 = ?R5 \<or> ?R6 = ?R6 \<or> ?R6 = ?R7 \<or> ?R6 = ?R8"
      by (rule disjI2, rule disjI2, rule disjI2, rule disjI2, rule disjI2, rule disjI1, rule refl)
    show ?thesis by (rule g [OF h H(6) e])
  next
    assume h: "In_rect u v ?R7"
    have e: "?R7 = ?R1 \<or> ?R7 = ?R2 \<or> ?R7 = ?R3 \<or> ?R7 = ?R4 \<or> ?R7 = ?R5 \<or> ?R7 = ?R6 \<or> ?R7 = ?R7 \<or> ?R7 = ?R8"
      by (rule disjI2, rule disjI2, rule disjI2, rule disjI2, rule disjI2, rule disjI2, rule disjI1, rule refl)
    show ?thesis by (rule g [OF h H(7) e])
  next
    assume h: "In_rect u v ?R8"
    have e: "?R8 = ?R1 \<or> ?R8 = ?R2 \<or> ?R8 = ?R3 \<or> ?R8 = ?R4 \<or> ?R8 = ?R5 \<or> ?R8 = ?R6 \<or> ?R8 = ?R7 \<or> ?R8 = ?R8"
      by (rule disjI2, rule disjI2, rule disjI2, rule disjI2, rule disjI2, rule disjI2, rule disjI2, rule refl)
    show ?thesis by (rule g [OF h H(8) e])
  qed
qed

lemma bleed_small:
  assumes "0 < Dx (Bounds img)" "Dx (Bounds img) < 2 ^ 31"
  shows "calculateBleedWidth img \<le> 1000000000"
proof -
  have "Dx (Bounds img) < 2 ^ 48" using assms(2) by simp
  then have "calculateBleedWidth img = (6 * Dx (Bounds img) + 31) div 62 div 2"
    unfolding calculateBleedWidth_Dx using assms(1) by (intro bleed_of_width)
  then show ?thesis using assms by simp
qed

lemma createCardWithBleed_repaired:
  assumes "cornerFix \<and> (fmt = ''jpg'' \<or> fmt = ''jpeg'')"
  shows "createCardWithBleed img fmt =
     fixCorners
       (Draw (Draw (NewRGBA (Rect (createCardWithBleed img fmt))) (Rect (createCardWithBleed img fmt))
                  (Uniform BLACK) (Pt 0 0) Src)
            (Add_rect (Bounds img) (Pt (calculateBleedWidth img) (calculateBleedWidth img)))
            img (Pt 0 0) Over)
       (calculateBleedWidth img)
       (Add_rect (Bounds img) (Pt (calculateBleedWidth img) (calculateBleedWidth img)))"
  using assms by (simp add: createCardWithBleed_Rect) (auto simp: createCardWithBleed_def Let_def)

lemma createCardWithBleed_unrepaired:
  assumes "\<not> (cornerFix \<and> (fmt = ''jpg'' \<or> fmt = ''jpeg''))"
  shows "createCardWithBleed img fmt =
       Draw (Draw (NewRGBA (Rect (createCardWithBleed img fmt))) (Rect (createCardWithBleed img fmt))
                  (Uniform BLACK) (Pt 0 0) Src)
            (Add_rect (Bounds img) (Pt (calculateBleedWidth img) (calculateBleedWidth img)))
            img (Pt 0 0) Over"
  using assms by (simp add: createCardWithBleed_Rect) (auto simp: createCardWithBleed_def Let_def)

lemma corner_rects_inward_cong:
  "X (MinP r) = X (MinP s) \<Longrightarrow> Y (MinP r) = Y (MinP s) \<Longrightarrow> X (MaxP r) = X (MaxP s)
   \<Longrightarrow> Y (MaxP r) = Y (MaxP s) \<Longrightarrow> corner_rects_inward b r = corner_rects_inward b s"
  by (simp add: corner_rects_inward_def)

text \<open>
  Claim C2, as amended. For a decoded image, whose bounds start at the origin, of size
  \<open>(W, H)\<close> and with computed bleed width \<open>b\<close>, the compositor produces an image of
  size \<open>(W + 2b, H + 2b)\<close>, whatever the source format. Every pixel of the sub-region at
  offset \<open>(b, b)\<close> of size \<open>(W, H)\<close> is the original pixel composed over the backing,
  which is opaque black at coordinates below \<open>10\<^sup>9\<close>; an opaque original pixel is
  thereby the original pixel itself, in the 8-bit RGBA of the output buffer. The exception
  is corner repair: where it is applied (the test of the program: \<open>cornerFix\<close> and a source
  format \<open>jpg\<close> or \<open>jpeg\<close>; stated for a bleed width of at most \<open>10\<^sup>9\<close>, which
  \<open>bleed_small\<close> gives for every width below \<open>2\<^sup>3\<^sup>1\<close>), the pixels of the sub-region
  inside the eight inward corner rectangles are opaque black and all its other pixels are as
  before.
\<close>

theorem createCardWithBleed_geometry:
  assumes "Bounds img = image_Rect 0 0 W H" and "0 < W" and "0 < H"
  shows "MinP (Rect (createCardWithBleed img fmt)) = Pt 0 0
       \<and> Dx (Rect (createCardWithBleed img fmt)) = W + 2 * calculateBleedWidth img
       \<and> Dy (Rect (createCardWithBleed img fmt)) = H + 2 * calculateBleedWidth img
       \<and> (\<forall>x y. 0 \<le> x \<and> x < W \<and> 0 \<le> y \<and> y < H \<longrightarrow>
            (\<not> (cornerFix \<and> (fmt = ''jpg'' \<or> fmt = ''jpeg'')) \<longrightarrow>
               Pix (createCardWithBleed img fmt) (calculateBleedWidth img + x) (calculateBleedWidth img + y)
               = compose Over (At img x y)
                   (backing (calculateBleedWidth img + x) (calculateBleedWidth img + y)))
          \<and> (cornerFix \<and> (fmt = ''jpg'' \<or> fmt = ''jpeg'') \<and> calculateBleedWidth img \<le> 1000000000 \<longrightarrow>
               Pix (createCardWithBleed img fmt) (calculateBleedWidth img + x) (calculateBleedWidth img + y)
               = (if in_any (calculateBleedWidth img + x) (calculateBleedWidth img + y)
                       (corner_rects_inward (calculateBleedWidth img)
                          (box (calculateBleedWidth img) (calculateBleedWidth img)
                             (W + calculateBleedWidth img) (H + calculateBleedWidth img)))
                  then BLACK
                  else compose Over (At img x y)
                         (backing (calculateBleedWidth img + x) (calculateBleedWidth img + y))))
          \<and> (opaque (At img x y) \<longrightarrow>
               compose Over (At img x y)
                 (backing (calculateBleedWidth img + x) (calculateBleedWidth img + y))
               = to_rgba (At img x y)))"
proof -
  define b where "b = calculateBleedWidth img"
  define out where "out = createCardWithBleed img fmt"
  define inner where "inner = Add_rect (Bounds img) (Pt b b)"
  define base where
    "base = Draw (Draw (NewRGBA (Rect out)) (Rect out) (Uniform BLACK) (Pt 0 0) Src) inner img (Pt 0 0) Over"
  have dx: "Dx (Bounds img) = W" and dy: "Dy (Bounds img) = H"
    using assms by (simp_all add: Dx_image_Rect Dy_image_Rect)
  have b: "0 \<le> b" unfolding b_def using assms(2) by (intro calculateBleedWidth_nonneg) (simp add: dx)
  have R: "Rect out = image_Rect 0 0 (W + b * 2) (H + b * 2)"
    by (simp add: out_def createCardWithBleed_Rect dx dy b_def)
  have W2: "0 \<le> W + b * 2" and H2: "0 \<le> H + b * 2" using assms b by simp_all
  have size: "MinP (Rect out) = Pt 0 0" "Dx (Rect out) = W + 2 * b" "Dy (Rect out) = H + 2 * b"
    using W2 H2 by (simp_all add: R MinP_image_Rect Dx_image_Rect Dy_image_Rect)
  have Rb: "Rect base = Rect out" by (simp add: base_def Draw_Rect NewRGBA_def)
  have inR: "In_rect (b + x) (b + y) (Rect out)" if "0 \<le> x" "x < W" "0 \<le> y" "y < H" for x y
    using that b W2 H2 by (simp add: R In_image_Rect)
  have pb: "Pix base (b + x) (b + y) = compose Over (At img x y) (backing (b + x) (b + y))"
    if x: "0 \<le> x" "x < W" and y: "0 \<le> y" "y < H" for x y
  proof -
    have "Pix base (b + x) (b + y) =
      compose Over (At img x y)
        (Pix (Draw (NewRGBA (Rect out)) (Rect out) (Uniform BLACK) (Pt 0 0) Src) (b + x) (b + y))"
      unfolding base_def inner_def
      by (rule inner_pixel [OF assms b x y]) (simp add: Draw_Rect NewRGBA_def R)
    also have "Pix (Draw (NewRGBA (Rect out)) (Rect out) (Uniform BLACK) (Pt 0 0) Src) (b + x) (b + y)
        = backing (b + x) (b + y)"
      unfolding R using W2 H2 inR [OF x y, unfolded R] by (rule fill_backing)
    finally show ?thesis .
  qed
  have plain: "Pix out (b + x) (b + y) = compose Over (At img x y) (backing (b + x) (b + y))"
    if f: "\<not> (cornerFix \<and> (fmt = ''jpg'' \<or> fmt = ''jpeg''))"
      and x: "0 \<le> x" "x < W" and y: "0 \<le> y" "y < H" for x y
  proof -
    have "out = base"
      unfolding out_def base_def inner_def b_def by (rule createCardWithBleed_unrepaired [OF f])
    then show ?thesis using pb [OF x y] by simp
  qed
  have rects: "corner_rects_inward b inner = corner_rects_inward b (box b b (W + b) (H + b))"
    using assms(2,3)
    by (intro corner_rects_inward_cong)
       (simp_all add: inner_def assms(1) Add_rect_def Add_pt_def image_Rect_def Pt_def box_def Let_def)
  have rep: "Pix out (b + x) (b + y) =
      (if in_any (b + x) (b + y) (corner_rects_inward b (box b b (W + b) (H + b))) then BLACK
       else compose Over (At img x y) (backing (b + x) (b + y)))"
    if f: "cornerFix \<and> (fmt = ''jpg'' \<or> fmt = ''jpeg'')" and s: "b \<le> 1000000000"
      and x: "0 \<le> x" "x < W" and y: "0 \<le> y" "y < H" for x y
  proof -
    have o: "out = fixCorners base b inner"
      unfolding out_def base_def inner_def b_def by (rule createCardWithBleed_repaired [OF f])
    have b51: "b < 2 ^ 51" using s by simp
    show ?thesis
    proof (cases "in_any (b + x) (b + y) (corner_rects_inward b inner)")
      case True
      have "Pix (fixCorners base b inner) (b + x) (b + y) = BLACK"
        using b s True inR [OF x y] unfolding Rb [symmetric] by (rule fixCorners_paints)
      then show ?thesis using True unfolding rects o by simp
    next
      case False
      have "Pix (fixCorners base b inner) (b + x) (b + y) = Pix base (b + x) (b + y)"
        using b b51 False by (rule fixCorners_frame)
      then show ?thesis using False pb [OF x y] unfolding rects o by simp
    qed
  qed
  have op: "compose Over (At img x y) d = to_rgba (At img x y)" if "opaque (At img x y)" for x y d
    using that by (rule compose_Over_opaque)
  show ?thesis
    unfolding b_def [symmetric] out_def [symmetric] using size plain rep op by blast
qed

lemma bleed_white_card_40: "calculateBleedWidth (white_card 40 40) = 2"
  by code_simp

theorem createCardWithBleed_geometry_witness:
  "Bounds (white_card 40 40) = image_Rect 0 0 40 40
   \<and> Dx (Rect (createCardWithBleed (white_card 40 40) ''png'')) = 44
   \<and> Dy (Rect (createCardWithBleed (white_card 40 40) ''png'')) = 44
   \<and> opaque (At (white_card 40 40) 3 5) \<and> opaque (At (white_card 40 40) 0 0)
   \<and> \<not> (cornerFix \<and> (''png'' = ''jpg'' \<or> ''png'' = ''jpeg''))
   \<and> Pix (createCardWithBleed (white_card 40 40) ''png'') 5 7 = to_rgba (At (white_card 40 40) 3 5)
   \<and> Pix (createCardWithBleed (white_card 40 40) ''png'') 2 2 = to_rgba (At (white_card 40 40) 0 0)
   \<and> (cornerFix \<and> (''jpeg'' = ''jpg'' \<or> ''jpeg'' = ''jpeg'')
        \<and> calculateBleedWidth (white_card 40 40) \<le> 1000000000)
   \<and> \<not> in_any 5 7 (corner_rects_inward 2 (box 2 2 42 42))
   \<and> Pix (createCardWithBleed (white_card 40 40) ''jpeg'') 5 7 = to_rgba (At (white_card 40 40) 3 5)
   \<and> in_any 2 2 (corner_rects_inward 2 (box 2 2 42 42))
   \<and> Pix (createCardWithBleed (white_card 40 40) ''jpeg'') 2 2 = BLACK"
proof -
  have pos: "(0::int) < 40" by simp
  note tp = createCardWithBleed_geometry [OF Bounds_white_card pos pos, of "''png''",
      unfolded bleed_white_card_40]
  note tj = createCardWithBleed_geometry [OF Bounds_white_card pos pos, of "''jpeg''",
      unfolded bleed_white_card_40]
  have np: "\<not> (cornerFix \<and> (''png'' = ''jpg'' \<or> ''png'' = ''jpeg''))" by simp
  have rj: "cornerFix \<and> (''jpeg'' = ''jpg'' \<or> ''jpeg'' = ''jpeg'')
        \<and> calculateBleedWidth (white_card 40 40) \<le> 1000000000"
    by (simp add: cornerFix_def bleed_white_card_40)
  have rj': "cornerFix \<and> (''jpeg'' = ''jpg'' \<or> ''jpeg'' = ''jpeg'') \<and> (2::int) \<le> 1000000000"
    by (simp add: cornerFix_def)
  have o: "opaque (At (white_card 40 40) 3 5)" "opaque (At (white_card 40 40) 0 0)"
    by (rule opaque_white_card)+
  have i1: "\<not> in_any 5 7 (corner_rects_inward 2 (box 2 2 42 42))" by code_simp
  have i2: "in_any 2 2 (corner_rects_inward 2 (box 2 2 42 42))" by code_simp
  have r35: "(0::int) \<le> 3 \<and> (3::int) < 40 \<and> (0::int) \<le> 5 \<and> (5::int) < 40" by simp
  have r00: "(0::int) \<le> 0 \<and> (0::int) < 40 \<and> (0::int) \<le> 0 \<and> (0::int) < 40" by simp
  have s: "Dx (Rect (createCardWithBleed (white_card 40 40) ''png'')) = 44"
    "Dy (Rect (createCardWithBleed (white_card 40 40) ''png'')) = 44"
    using tp by simp_all
  from tp have ap: "\<forall>x y. 0 \<le> x \<and> x < 40 \<and> 0 \<le> y \<and> y < 40 \<longrightarrow>
      (\<not> (cornerFix \<and> (''png'' = ''jpg'' \<or> ''png'' = ''jpeg'')) \<longrightarrow>
         Pix (createCardWithBleed (white_card 40 40) ''png'') (2 + x) (2 + y)
         = compose Over (At (white_card 40 40) x y) (backing (2 + x) (2 + y)))
      \<and> (opaque (At (white_card 40 40) x y) \<longrightarrow>
           compose Over (At (white_card 40 40) x y) (backing (2 + x) (2 + y))
           = to_rgba (At (white_card 40 40) x y))"
    by blast
  from tj have aj: "\<forall>x y. 0 \<le> x \<and> x < 40 \<and> 0 \<le> y \<and> y < 40 \<longrightarrow>
      (cornerFix \<and> (''jpeg'' = ''jpg'' \<or> ''jpeg'' = ''jpeg'') \<and> (2::int) \<le> 1000000000 \<longrightarrow>
         Pix (createCardWithBleed (white_card 40 40) ''jpeg'') (2 + x) (2 + y)
         = (if in_any (2 + x) (2 + y) (corner_rects_inward 2 (box 2 2 (40 + 2) (40 + 2))) then BLACK
            else compose Over (At (white_card 40 40) x y) (backing (2 + x) (2 + y))))
      \<and> (opaque (At (white_card 40 40) x y) \<longrightarrow>
           compose Over (At (white_card 40 40) x y) (backing (2 + x) (2 + y))
           = to_rgba (At (white_card 40 40) x y))"
    by blast
  have p1: "Pix (createCardWithBleed (white_card 40 40) ''png'') 5 7 = to_rgba (At (white_card 40 40) 3 5)"
    using ap [rule_format, OF r35] np o(1) by simp
  have p2: "Pix (createCardWithBleed (white_card 40 40) ''png'') 2 2 = to_rgba (At (white_card 40 40) 0 0)"
    using ap [rule_format, OF r00] np o(2) by simp
  have j1: "Pix (createCardWithBleed (white_card 40 40) ''jpeg'') 5 7 = to_rgba (At (white_card 40 40) 3 5)"
    using aj [rule_format, OF r35] rj' o(1) i1 by simp
  have j2: "Pix (createCardWithBleed (white_card 40 40) ''jpeg'') 2 2 = BLACK"
    using aj [rule_format, OF r00] rj' i2 by simp
  show ?thesis
    by (intro conjI) (rule Bounds_white_card s o np p1 p2 rj [THEN conjunct1] rj [THEN conjunct2, THEN conjunct1]
        rj [THEN conjunct2, THEN conjunct2] i1 i2 j1 j2)+
qed

text \<open>
  Claim C2 as stated, for every decoded image, fails on a JPEG source: the pixel of the output
  at offset \<open>(b, b)\<close>, where the first pixel of the original lies, is black although the
  original pixel is opaque white.
\<close>

theorem createCardWithBleed_identity_counterexample:
  "opaque (At (white_card 40 40) 0 0)
   \<and> calculateBleedWidth (white_card 40 40) = 2
   \<and> to_rgba (At (white_card 40 40) 0 0) = \<lparr>cR = 255, cG = 255, cB = 255, cA = 255\<rparr>
   \<and> Pix (createCardWithBleed (white_card 40 40) ''jpeg'') (2 + 0) (2 + 0)
       = \<lparr>cR = 0, cG = 0, cB = 0, cA = 255\<rparr>
   \<and> Pix (createCardWithBleed (white_card 40 40) ''jpeg'') (2 + 0) (2 + 0)
       \<noteq> to_rgba (At (white_card 40 40) 0 0)"
proof -
  have "to_rgba (At (white_card 40 40) 0 0) = \<lparr>cR = 255, cG = 255, cB = 255, cA = 255\<rparr>"
    by code_simp
  moreover have "Pix (createCardWithBleed (white_card 40 40) ''jpeg'') (2 + 0) (2 + 0)
       = \<lparr>cR = 0, cG = 0, cB = 0, cA = 255\<rparr>"
    by code_simp
  ultimately show ?thesis by (simp add: opaque_white_card bleed_white_card_40)
qed

text \<open>
  Claim C5, as amended. Corner repair changes only pixels that lie in the eight rectangles,
  two at each corner of the inner rectangle, one \<open>floor(0.75 * b)\<close> by \<open>b\<close> and one
  \<open>b\<close> by \<open>floor(0.75 * b)\<close>, that are anchored at the corners and extend inward, over the
  corners of the original image; every other pixel keeps its value, and the bounds of the
  image are unchanged.
\<close>

theorem fixCorners_changes_only_corners:
  assumes "0 \<le> b" and "b < 2 ^ 51" and "\<not> in_any x y (corner_rects_inward b inner)"
  shows "Pix (fixCorners img b inner) x y = Pix img x y \<and> Rect (fixCorners img b inner) = Rect img"
  using assms by (simp add: fixCorners_frame fixCorners_Rect)

theorem fixCorners_changes_only_corners_witness:
  "(0::int) \<le> 2 \<and> (2::int) < 2 ^ 51 \<and> \<not> in_any 2 4 (corner_rects_inward 2 (box 2 2 42 42))
   \<and> Pix (fixCorners (white_buffer 44 44) 2 (box 2 2 42 42)) 2 4 = Pix (white_buffer 44 44) 2 4
   \<and> Rect (fixCorners (white_buffer 44 44) 2 (box 2 2 42 42)) = Rect (white_buffer 44 44)"
proof -
  have n: "\<not> in_any 2 4 (corner_rects_inward 2 (box 2 2 42 42))"
    by code_simp
  show ?thesis
    using fixCorners_changes_only_corners [of 2 2 4 "box 2 2 42 42" "white_buffer 44 44"] n
    by simp
qed

text \<open>
  Claim C5 as stated places the rectangles outside the inner rectangle, in the bleed margin.
  The pixel \<open>(2, 2)\<close>, the corner pixel of the original image, lies in none of those
  and is repainted.
\<close>

theorem fixCorners_outward_counterexample:
  "\<not> in_any 2 2 (corner_rects_outward 2 (box 2 2 42 42))
   \<and> Pix (white_buffer 44 44) 2 2 = \<lparr>cR = 255, cG = 255, cB = 255, cA = 255\<rparr>
   \<and> Pix (fixCorners (white_buffer 44 44) 2 (box 2 2 42 42)) 2 2 = \<lparr>cR = 0, cG = 0, cB = 0, cA = 255\<rparr>
   \<and> Pix (fixCorners (white_buffer 44 44) 2 (box 2 2 42 42)) 2 2 \<noteq> Pix (white_buffer 44 44) 2 2"
proof -
  have "\<not> in_any 2 2 (corner_rects_outward 2 (box 2 2 42 42))"
    by code_simp
  moreover have "Pix (fixCorners (white_buffer 44 44) 2 (box 2 2 42 42)) 2 2
       = \<lparr>cR = 0, cG = 0, cB = 0, cA = 255\<rparr>"
    by code_simp
  ultimately show ?thesis by (simp add: white_buffer_def)
qed

subsection \<open>Extensions and suffixes\<close>

lemma ext_scan_dot:
  "CHR ''.'' \<notin> set ys \<Longrightarrow> CHR ''/'' \<notin> set ys \<Longrightarrow>
   ext_scan (ys @ CHR ''.'' # zs) acc = CHR ''.'' # rev ys @ acc"
  by (induction ys arbitrary: acc) auto

lemma ext_scan_slash:
  "CHR ''.'' \<notin> set ys \<Longrightarrow> ext_scan (ys @ CHR ''/'' # zs) acc = []"
  by (induction ys arbitrary: acc) auto

lemma ext_scan_none:
  "CHR ''.'' \<notin> set ys \<Longrightarrow> ext_scan ys acc = []"
  by (induction ys arbitrary: acc) auto

lemma Ext_dot:
  assumes "CHR ''.'' \<notin> set e" "CHR ''/'' \<notin> set e"
  shows "Ext (xs @ ''.'' @ e) = ''.'' @ e"
  using ext_scan_dot [of "rev e" "rev xs" "[]"] assms by (simp add: Ext_def)

lemma Ext_no_dot:
  assumes "CHR ''.'' \<notin> set n"
  shows "Ext (xs @ ''/'' @ n) = []"
  using ext_scan_slash [of "rev n" "rev xs" "[]"] assms by (simp add: Ext_def)

lemma ext_scan_suffix: "\<exists>ys. rev zs @ acc = ys @ ext_scan zs acc"
proof (induction zs arbitrary: acc)
  case Nil
  show ?case by simp
next
  case (Cons c cs)
  show ?case
  proof (cases "c = CHR ''/'' \<or> c = CHR ''.''")
    case True
    then show ?thesis by auto
  next
    case False
    then show ?thesis using Cons [of "c # acc"] by simp
  qed
qed

lemma Ext_suffix: "\<exists>ys. p = ys @ Ext p"
  using ext_scan_suffix [of "rev p" "[]"] by (simp add: Ext_def)

lemma TrimSuffix_append: "TrimSuffix (xs @ s) s = xs"
  by (simp add: TrimSuffix_def HasSuffix_def)

lemma TrimSuffix_Ext: "TrimSuffix p (Ext p) @ Ext p = p"
proof -
  obtain ys where p: "p = ys @ Ext p" using Ext_suffix by blast
  have "TrimSuffix (ys @ Ext p) (Ext p) = ys" by (rule TrimSuffix_append)
  then show ?thesis using p by simp
qed

lemma replaced_differs:
  assumes "Ext c \<noteq> ''.'' @ f"
  shows "TrimSuffix c (Ext c) @ ''.'' @ f \<noteq> c"
proof
  assume "TrimSuffix c (Ext c) @ ''.'' @ f = c"
  also have "c = TrimSuffix c (Ext c) @ Ext c" by (simp only: TrimSuffix_Ext)
  finally have "''.'' @ f = Ext c" by (simp only: same_append_eq)
  with assms show False by simp
qed

lemma replace_extension:
  assumes "CHR ''.'' \<notin> set e" "CHR ''/'' \<notin> set e"
  shows "TrimSuffix (xs @ ''.'' @ e) (Ext (xs @ ''.'' @ e)) @ ''.'' @ f = xs @ ''.'' @ f"
proof -
  have "TrimSuffix (xs @ (''.'' @ e)) (''.'' @ e) = xs" by (rule TrimSuffix_append)
  then show ?thesis using Ext_dot [OF assms, of xs] by simp
qed

lemma append_extension:
  assumes "CHR ''.'' \<notin> set n"
  shows "TrimSuffix (xs @ ''/'' @ n) (Ext (xs @ ''/'' @ n)) @ ''.'' @ f = xs @ ''/'' @ n @ ''.'' @ f"
  using Ext_no_dot [OF assms, of xs] by (simp add: TrimSuffix_def HasSuffix_def)

subsection \<open>The producer\<close>

lemma member_supported:
  "x \<in> set supportedFileTypes \<longleftrightarrow> x = ''.png'' \<or> x = ''.jpg'' \<or> x = ''.jpeg''"
  by (auto simp: supportedFileTypes_def)

lemma queueImageJobs_loop_eq:
  "queueImageJobs_loop L inFolder entries sent =
     sent @ map (\<lambda>e. Join L inFolder (Name e))
              (filter (\<lambda>e. \<not> IsDir e \<and> Ext (Name e) \<in> {''.png'', ''.jpg'', ''.jpeg''}) entries)"
  by (induction entries arbitrary: sent) (auto simp: member_supported)

text \<open>
  Claim C6. The producer sends one job for each direct entry of the directory that is not a
  subdirectory and whose extension is exactly \<open>.png\<close>, \<open>.jpg\<close> or \<open>.jpeg\<close>, in the
  order of the listing, and nothing for any other entry: of \<open>a.png\<close>, \<open>b.txt\<close>,
  \<open>c.jpg\<close> and the subdirectory \<open>d\<close> it sends \<open>a.png\<close> and \<open>c.jpg\<close>, and it sends
  nothing for \<open>A.PNG\<close>. When the
  input path is a file, \<open>main\<close> runs the pipeline once, on that path, whatever its
  extension; when it is a directory, \<open>main\<close> runs the workers on the jobs of the producer.
\<close>

theorem queueImageJobs_selects:
  "buf (queueImageJobs L inFolder entries jobs) =
     buf jobs @ map (\<lambda>e. Join L inFolder (Name e))
       (filter (\<lambda>e. \<not> IsDir e \<and> Ext (Name e) \<in> {''.png'', ''.jpg'', ''.jpeg''}) entries)
   \<and> buf (queueImageJobs L inFolder
        example_entries
        \<lparr>buf = [], closed = False\<rparr>) = [Join L inFolder ''a.png'', Join L inFolder ''c.jpg'']
   \<and> buf (queueImageJobs L inFolder [\<lparr>Name = ''A.PNG'', IsDir = False\<rparr>]
        \<lparr>buf = [], closed = False\<rparr>) = []
   \<and> (os_MkdirAll fs outFolder = Some fs0 \<longrightarrow>
        (\<forall>bs. fs0 inPath = Some (File bs) \<longrightarrow>
           main fl L fs inPath outFolder =
             (case handleWriteImage fl L fs0 inPath outFolder of
                (err, fs', msgs) \<Rightarrow> (0, fs', msgs @ [Done outFolder])))
      \<and> (\<forall>es. fs0 inPath = Some (Dir es) \<longrightarrow>
           main fl L fs inPath outFolder =
             (case handleWriteImageWorker fl L
                     (map (\<lambda>e. Join L inPath (Name e))
                        (filter (\<lambda>e. \<not> IsDir e \<and> Ext (Name e) \<in> {''.png'', ''.jpg'', ''.jpeg''}) es))
                     outFolder (fs0, []) of
                (fs', out) \<Rightarrow> (0, fs', out @ [Done outFolder]))))"
proof -
  have a: "buf (queueImageJobs L d es c) =
     buf c @ map (\<lambda>e. Join L d (Name e))
       (filter (\<lambda>e. \<not> IsDir e \<and> Ext (Name e) \<in> {''.png'', ''.jpg'', ''.jpeg''}) es)" for d es c
    by (simp add: queueImageJobs_def queueImageJobs_loop_eq)
  have e: "Ext ''a.png'' = ''.png''" "Ext ''b.txt'' = ''.txt''" "Ext ''c.jpg'' = ''.jpg''"
    by (simp_all add: Ext_def)
  have b: "buf (queueImageJobs L inFolder
        example_entries
        \<lparr>buf = [], closed = False\<rparr>) = [Join L inFolder ''a.png'', Join L inFolder ''c.jpg'']"
    by (simp add: a e example_entries_def)
  have b': "buf (queueImageJobs L inFolder [\<lparr>Name = ''A.PNG'', IsDir = False\<rparr>]
        \<lparr>buf = [], closed = False\<rparr>) = []"
    by (simp add: a Ext_def)
  have c: "main fl L fs inPath outFolder =
             (case handleWriteImage fl L fs0 inPath outFolder of
                (err, fs', msgs) \<Rightarrow> (0, fs', msgs @ [Done outFolder]))"
    if "os_MkdirAll fs outFolder = Some fs0" "fs0 inPath = Some (File bs)" for bs
    using that by (simp add: main_def)
  have d: "main fl L fs inPath outFolder =
             (case handleWriteImageWorker fl L
                     (map (\<lambda>e. Join L inPath (Name e))
                        (filter (\<lambda>e. \<not> IsDir e \<and> Ext (Name e) \<in> {''.png'', ''.jpg'', ''.jpeg''}) es))
                     outFolder (fs0, []) of
                (fs', out) \<Rightarrow> (0, fs', out @ [Done outFolder]))"
    if "os_MkdirAll fs outFolder = Some fs0" "fs0 inPath = Some (Dir es)" for es
    using that by (simp add: main_def Let_def a)
  show ?thesis using a b b' c d by blast
qed

theorem queueImageJobs_selects_witness:
  "os_MkdirAll example_tree ''out'' = Some (example_tree(''out'' \<mapsto> Dir []))
   \<and> (example_tree(''out'' \<mapsto> Dir [])) ''x.txt'' = Some (File [1])
   \<and> (example_tree(''out'' \<mapsto> Dir [])) ''cards'' = Some (Dir example_entries)
   \<and> buf (queueImageJobs example_lib ''cards'' example_entries \<lparr>buf = [], closed = False\<rparr>)
       = [''cards/a.png'', ''cards/c.jpg'']
   \<and> main default_flags example_lib example_tree ''x.txt'' ''out''
      = (case handleWriteImage default_flags example_lib (example_tree(''out'' \<mapsto> Dir []))
                ''x.txt'' ''out'' of
           (err, fs', msgs) \<Rightarrow> (0, fs', msgs @ [Done ''out'']))
   \<and> main default_flags example_lib example_tree ''cards'' ''out''
      = (case handleWriteImageWorker default_flags example_lib [''cards/a.png'', ''cards/c.jpg'']
                ''out'' (example_tree(''out'' \<mapsto> Dir []), []) of
           (fs', out) \<Rightarrow> (0, fs', out @ [Done ''out'']))"
proof -
  define F0 where "F0 = example_tree(''out'' \<mapsto> Dir [])"
  have m: "os_MkdirAll example_tree ''out'' = Some F0"
    by (simp add: os_MkdirAll_def example_tree_def F0_def example_fs_def)
  have x: "F0 ''x.txt'' = Some (File [1])" and c: "F0 ''cards'' = Some (Dir example_entries)"
    by (simp_all add: example_tree_def F0_def example_fs_def)
  have e: "Ext ''a.png'' = ''.png''" "Ext ''b.txt'' = ''.txt''" "Ext ''c.jpg'' = ''.jpg''" "Ext ''d'' = []"
    by (simp_all add: Ext_def)
  have j: "map (\<lambda>e. Join example_lib ''cards'' (Name e))
             (filter (\<lambda>e. \<not> IsDir e \<and> Ext (Name e) \<in> {''.png'', ''.jpg'', ''.jpeg''}) example_entries)
           = [''cards/a.png'', ''cards/c.jpg'']"
    by (simp add: example_entries_def e example_lib_def)
  note t1 = queueImageJobs_selects [of example_lib "''cards''" example_entries
      "\<lparr>buf = [], closed = False\<rparr>" example_tree "''out''" F0 "''x.txt''" default_flags]
  note t2 = queueImageJobs_selects [of example_lib "''cards''" example_entries
      "\<lparr>buf = [], closed = False\<rparr>" example_tree "''out''" F0 "''cards''" default_flags]
  have q: "buf (queueImageJobs example_lib ''cards'' example_entries \<lparr>buf = [], closed = False\<rparr>)
       = [''cards/a.png'', ''cards/c.jpg'']"
  proof -
    from t1 have "buf (queueImageJobs example_lib ''cards'' example_entries \<lparr>buf = [], closed = False\<rparr>)
       = [Join example_lib ''cards'' ''a.png'', Join example_lib ''cards'' ''c.jpg'']"
      by blast
    then show ?thesis by (simp add: example_lib_def)
  qed
  have "main default_flags example_lib example_tree ''x.txt'' ''out''
      = (case handleWriteImage default_flags example_lib F0 ''x.txt'' ''out'' of
           (err, fs', msgs) \<Rightarrow> (0, fs', msgs @ [Done ''out'']))"
    using t1 m x by blast
  moreover have "main default_flags example_lib example_tree ''cards'' ''out''
      = (case handleWriteImageWorker default_flags example_lib [''cards/a.png'', ''cards/c.jpg''] ''out''
                (F0, []) of
           (fs', out) \<Rightarrow> (0, fs', out @ [Done ''out'']))"
  proof -
    from t2 m have "\<forall>es'. F0 ''cards'' = Some (Dir es') \<longrightarrow>
           main default_flags example_lib example_tree ''cards'' ''out'' =
             (case handleWriteImageWorker default_flags example_lib
                     (map (\<lambda>e. Join example_lib ''cards'' (Name e))
                        (filter (\<lambda>e. \<not> IsDir e \<and> Ext (Name e) \<in> {''.png'', ''.jpg'', ''.jpeg''}) es'))
                     ''out'' (F0, []) of
                (fs', out) \<Rightarrow> (0, fs', out @ [Done ''out'']))"
      by blast
    from this [rule_format, OF c] show ?thesis by (simp only: j)
  qed
  ultimately show ?thesis using m x c q unfolding F0_def by simp
qed

subsection \<open>Saving and the skip check\<close>

lemma os_Create_other: "os_Create fs p = Some fs' \<Longrightarrow> q \<noteq> p \<Longrightarrow> fs' q = fs q"
  by (auto simp: os_Create_def split: option.splits node.splits)

lemma os_Create_at: "os_Create fs p = Some fs' \<Longrightarrow> fs' p = Some (File [])"
  by (auto simp: os_Create_def split: option.splits node.splits)

lemma write_encoded_eq:
  "write_encoded fs p enc = (if snd enc then None else Some EncodeFailed, fs(p \<mapsto> File (fst enc)))"
  by (simp add: write_encoded_def split: prod.splits)

text \<open>
  Claim C7. In \<open>saveImage\<close> the output format is the detected input format when the
  configured format is \<open>auto\<close> and the configured format otherwise; the file written is
  the given path with its extension replaced by a dot and the output format (appended when
  the name has no extension) and no other file is touched; a format other than \<open>png\<close>,
  \<open>jpg\<close> and \<open>jpeg\<close> gives the error for an unsupported format, and the file that was
  created holds no encoded image.
\<close>

theorem saveImage_resolves_format:
  assumes "saveImage fl L fs outPath imgOut imgInFmt = (err, fs')"
    and "f = (if OUT_FMT fl = ''auto'' then imgInFmt else OUT_FMT fl)"
    and "p = TrimSuffix outPath (Ext outPath) @ ''.'' @ f"
  shows "(\<forall>q. q \<noteq> p \<longrightarrow> fs' q = fs q)
       \<and> (os_Create fs p = None \<longrightarrow> err = Some (CreateFailed p) \<and> fs' = fs)
       \<and> (os_Create fs p \<noteq> None \<longrightarrow>
            (f = ''png'' \<longrightarrow>
               fs' p = Some (File (fst (png_Encode L imgOut)))
               \<and> err = (if snd (png_Encode L imgOut) then None else Some EncodeFailed))
          \<and> (f = ''jpg'' \<or> f = ''jpeg'' \<longrightarrow>
               fs' p = Some (File (fst (jpeg_Encode L imgOut)))
               \<and> err = (if snd (jpeg_Encode L imgOut) then None else Some EncodeFailed))
          \<and> (f \<noteq> ''png'' \<and> f \<noteq> ''jpg'' \<and> f \<noteq> ''jpeg'' \<longrightarrow>
               err = Some (Unsupported f) \<and> fs' p = Some (File [])))
       \<and> (\<forall>d n e. outPath = d @ ''/'' @ n @ ''.'' @ e \<and> CHR ''.'' \<notin> set e \<and> CHR ''/'' \<notin> set e
            \<longrightarrow> p = d @ ''/'' @ n @ ''.'' @ f)
       \<and> (\<forall>d n. outPath = d @ ''/'' @ n \<and> CHR ''.'' \<notin> set n \<longrightarrow> p = d @ ''/'' @ n @ ''.'' @ f)"
proof -
  have s: "saveImage fl L fs outPath imgOut imgInFmt =
    (case os_Create fs p of
       None \<Rightarrow> (Some (CreateFailed p), fs)
     | Some fs1 \<Rightarrow>
         if f = ''png'' then write_encoded fs1 p (png_Encode L imgOut)
         else if f = ''jpg'' \<or> f = ''jpeg'' then write_encoded fs1 p (jpeg_Encode L imgOut)
         else (Some (Unsupported f), fs1))"
    unfolding assms(2,3) by (simp add: saveImage_def Let_def split: option.splits)
  have frame: "\<forall>q. q \<noteq> p \<longrightarrow> fs' q = fs q"
    using assms(1) unfolding s
    by (auto simp: write_encoded_eq dest: os_Create_other split: option.splits if_splits)
  have fail: "os_Create fs p = None \<longrightarrow> err = Some (CreateFailed p) \<and> fs' = fs"
    using assms(1) unfolding s by auto
  have ok: "os_Create fs p \<noteq> None \<longrightarrow>
            (f = ''png'' \<longrightarrow>
               fs' p = Some (File (fst (png_Encode L imgOut)))
               \<and> err = (if snd (png_Encode L imgOut) then None else Some EncodeFailed))
          \<and> (f = ''jpg'' \<or> f = ''jpeg'' \<longrightarrow>
               fs' p = Some (File (fst (jpeg_Encode L imgOut)))
               \<and> err = (if snd (jpeg_Encode L imgOut) then None else Some EncodeFailed))
          \<and> (f \<noteq> ''png'' \<and> f \<noteq> ''jpg'' \<and> f \<noteq> ''jpeg'' \<longrightarrow>
               err = Some (Unsupported f) \<and> fs' p = Some (File []))"
    using assms(1) unfolding s
    by (auto simp: write_encoded_eq dest: os_Create_at split: option.splits if_splits)
  have name1: "\<forall>d n e. outPath = d @ ''/'' @ n @ ''.'' @ e \<and> CHR ''.'' \<notin> set e \<and> CHR ''/'' \<notin> set e
            \<longrightarrow> p = d @ ''/'' @ n @ ''.'' @ f"
  proof (intro allI impI)
    fix d n e
    assume h: "outPath = d @ ''/'' @ n @ ''.'' @ e \<and> CHR ''.'' \<notin> set e \<and> CHR ''/'' \<notin> set e"
    then have o: "outPath = (d @ ''/'' @ n) @ ''.'' @ e"
      and e: "CHR ''.'' \<notin> set e" "CHR ''/'' \<notin> set e" by simp_all
    have "p = (d @ ''/'' @ n) @ ''.'' @ f"
      unfolding assms(3) o by (rule replace_extension [OF e])
    then show "p = d @ ''/'' @ n @ ''.'' @ f" by simp
  qed
  have name2: "\<forall>d n. outPath = d @ ''/'' @ n \<and> CHR ''.'' \<notin> set n \<longrightarrow> p = d @ ''/'' @ n @ ''.'' @ f"
  proof (intro allI impI)
    fix d n
    assume h: "outPath = d @ ''/'' @ n \<and> CHR ''.'' \<notin> set n"
    then have o: "outPath = d @ ''/'' @ n" and n: "CHR ''.'' \<notin> set n" by simp_all
    show "p = d @ ''/'' @ n @ ''.'' @ f"
      unfolding assms(3) o by (rule append_extension [OF n])
  qed
  show ?thesis using frame fail ok name1 name2 by blast
qed

theorem saveImage_resolves_format_witness:
  "saveImage default_flags example_lib example_tree ''out/a.jpg'' (white_buffer 44 44) ''jpeg''
     = (None, example_tree(''out/a.png'' \<mapsto> File [80, 255]))
   \<and> ''png'' = (if OUT_FMT default_flags = ''auto'' then ''jpeg'' else OUT_FMT default_flags)
   \<and> ''out/a.png'' = TrimSuffix ''out/a.jpg'' (Ext ''out/a.jpg'') @ ''.'' @ ''png''
   \<and> os_Create example_tree ''out/a.png'' \<noteq> None
   \<and> (example_tree(''out/a.png'' \<mapsto> File [80, 255])) ''out/a.png''
       = Some (File (fst (png_Encode example_lib (white_buffer 44 44))))
   \<and> saveImage (default_flags\<lparr>OUT_FMT := ''gif''\<rparr>) example_lib example_tree ''out/a.jpg''
        (white_buffer 44 44) ''jpeg''
     = (Some (Unsupported ''gif''), example_tree(''out/a.gif'' \<mapsto> File []))"
proof -
  have e: "Ext ''out/a.jpg'' = ''.jpg''" by (simp add: Ext_def)
  have tp: "TrimSuffix ''out/a.jpg'' (Ext ''out/a.jpg'') = ''out/a''"
    by (simp add: e TrimSuffix_def HasSuffix_def)
  have o: "OUT_FMT default_flags = ''png''" by (simp add: default_flags_def)
  have p: "''out/a.png'' = TrimSuffix ''out/a.jpg'' (Ext ''out/a.jpg'') @ ''.'' @ ''png''"
    and g: "''out/a.gif'' = TrimSuffix ''out/a.jpg'' (Ext ''out/a.jpg'') @ ''.'' @ ''gif''"
    by (simp_all add: e TrimSuffix_def HasSuffix_def)
  have f: "''png'' = (if OUT_FMT default_flags = ''auto'' then ''jpeg'' else OUT_FMT default_flags)"
    by (simp add: default_flags_def)
  have f': "''gif'' = (if OUT_FMT (default_flags\<lparr>OUT_FMT := ''gif''\<rparr>) = ''auto'' then ''jpeg''
                       else OUT_FMT (default_flags\<lparr>OUT_FMT := ''gif''\<rparr>))"
    by simp
  have c: "os_Create example_tree ''out/a.png'' = Some (example_tree(''out/a.png'' \<mapsto> File []))"
    and c': "os_Create example_tree ''out/a.gif'' = Some (example_tree(''out/a.gif'' \<mapsto> File []))"
    by (simp_all add: os_Create_def example_tree_def example_fs_def)
  have enc: "png_Encode example_lib (white_buffer 44 44) = ([80, 255], True)"
    by (simp add: example_lib_def white_buffer_def)
  have s1: "saveImage default_flags example_lib example_tree ''out/a.jpg'' (white_buffer 44 44) ''jpeg''
     = (None, example_tree(''out/a.png'' \<mapsto> File [80, 255]))"
    by (simp add: saveImage_def Let_def o tp c write_encoded_def enc)
  have s2: "saveImage (default_flags\<lparr>OUT_FMT := ''gif''\<rparr>) example_lib example_tree ''out/a.jpg''
        (white_buffer 44 44) ''jpeg''
     = (Some (Unsupported ''gif''), example_tree(''out/a.gif'' \<mapsto> File []))"
    by (simp add: saveImage_def Let_def tp c')
  note t1 = saveImage_resolves_format [OF s1 f p]
  note t2 = saveImage_resolves_format [OF s2 f' g]
  have "(example_tree(''out/a.png'' \<mapsto> File [80, 255])) ''out/a.png''
       = Some (File (fst (png_Encode example_lib (white_buffer 44 44))))"
    using t1 c by simp
  moreover have "Some (Unsupported ''gif'') = Some (Unsupported ''gif'')
       \<and> (example_tree(''out/a.gif'' \<mapsto> File [])) ''out/a.gif'' = Some (File [])"
    using t2 c' by simp
  ultimately show ?thesis using s1 s2 f p c by simp
qed

lemma saveImage_frame:
  assumes "saveImage fl L fs outPath imgOut imgInFmt = (err, fs')"
    and "q \<noteq> TrimSuffix outPath (Ext outPath) @ ''.'' @ (if OUT_FMT fl = ''auto'' then imgInFmt else OUT_FMT fl)"
  shows "fs' q = fs q"
  using assms
  by (auto simp: saveImage_def Let_def write_encoded_eq dest: os_Create_other
      split: option.splits if_splits)

lemma handleWriteImage_decoded:
  assumes "fs inFilePath = Some inFile" and "image_Decode L inFile = Some (img, imgFmt)"
  shows "handleWriteImage fl L fs inFilePath dir =
     (if OW_OUT fl \<and> fs (Join L dir (Base inFilePath)) \<noteq> None
      then (None, fs, [Skipping (Base inFilePath)])
      else (case saveImage fl L fs (Join L dir (Base inFilePath)) (createCardWithBleed img imgFmt) imgFmt of
              (err, fs') \<Rightarrow> (err, fs', [Adding (Base inFilePath)])))"
  using assms by (simp add: handleWriteImage_def Let_def)

text \<open>
  Claim C10. \<open>handleWriteImage\<close> tests for an existing file at the output folder joined
  with the base name of the input, original extension included, while \<open>saveImage\<close> writes
  to that path with the extension replaced. When the extension of the tested path is not the
  output format, the two paths differ, the tested path is not written, and the write is
  skipped exactly when the overwrite flag is set and the tested path exists: with no file at
  the tested path the image is saved, whatever lies at the path that is written.
\<close>

theorem skip_check_tests_unreplaced_path:
  assumes "fs inFilePath = Some inFile" and "image_Decode L inFile = Some (img, imgFmt)"
    and "c = Join L dir (Base inFilePath)"
    and "f = (if OUT_FMT fl = ''auto'' then imgFmt else OUT_FMT fl)"
    and "p = TrimSuffix c (Ext c) @ ''.'' @ f"
  shows "(Ext c \<noteq> ''.'' @ f \<longrightarrow> p \<noteq> c)
       \<and> (snd (snd (handleWriteImage fl L fs inFilePath dir)) = [Skipping (Base inFilePath)]
            \<longleftrightarrow> OW_OUT fl \<and> fs c \<noteq> None)
       \<and> (fs c = None \<longrightarrow>
            handleWriteImage fl L fs inFilePath dir =
              (case saveImage fl L fs c (createCardWithBleed img imgFmt) imgFmt of
                 (err, fs') \<Rightarrow> (err, fs', [Adding (Base inFilePath)])))
       \<and> (Ext c \<noteq> ''.'' @ f \<longrightarrow> fst (snd (handleWriteImage fl L fs inFilePath dir)) c = fs c)"
proof -
  note h = handleWriteImage_decoded [of fs inFilePath inFile L img imgFmt fl dir, OF assms(1,2),
      folded assms(3)]
  have a: "Ext c \<noteq> ''.'' @ f \<longrightarrow> p \<noteq> c"
    unfolding assms(5) using replaced_differs [of c f] by blast
  have b: "snd (snd (handleWriteImage fl L fs inFilePath dir)) = [Skipping (Base inFilePath)]
            \<longleftrightarrow> OW_OUT fl \<and> fs c \<noteq> None"
    unfolding h by (auto split: prod.splits)
  have d: "fs c = None \<longrightarrow>
            handleWriteImage fl L fs inFilePath dir =
              (case saveImage fl L fs c (createCardWithBleed img imgFmt) imgFmt of
                 (err, fs') \<Rightarrow> (err, fs', [Adding (Base inFilePath)]))"
    unfolding h by simp
  have e: "fst (snd (handleWriteImage fl L fs inFilePath dir)) c = fs c" if "Ext c \<noteq> ''.'' @ f"
  proof -
    have n: "c \<noteq> TrimSuffix c (Ext c) @ ''.'' @ (if OUT_FMT fl = ''auto'' then imgFmt else OUT_FMT fl)"
      using that a unfolding assms(5) assms(4) by auto
    show ?thesis
      unfolding h using saveImage_frame [OF _ n] by (auto split: prod.splits)
  qed
  show ?thesis using a b d e by blast
qed

lemma Base_examples:
  "Base ''in/a.jpg'' = ''a.jpg''" "Base ''in/a.png'' = ''a.png''" "Base ''in/bad.png'' = ''bad.png''"
  "Base ''in/c.jpg'' = ''c.jpg''"
  by (simp_all add: Base_def)

theorem skip_check_tests_unreplaced_path_witness:
  "example_rerun ''in/a.jpg'' = Some (File [2])
   \<and> image_Decode example_lib (File [2]) = Some (white_card 40 40, ''jpeg'')
   \<and> ''out/a.jpg'' = Join example_lib ''out'' (Base ''in/a.jpg'')
   \<and> ''out/a.png'' = TrimSuffix ''out/a.jpg'' (Ext ''out/a.jpg'') @ ''.'' @ ''png''
   \<and> Ext ''out/a.jpg'' \<noteq> ''.'' @ ''png''
   \<and> example_rerun ''out/a.jpg'' = None
   \<and> example_rerun ''out/a.png'' = Some (File [80, 0])
   \<and> handleWriteImage (default_flags\<lparr>OW_OUT := True\<rparr>) example_lib example_rerun ''in/a.jpg'' ''out''
       = (case saveImage (default_flags\<lparr>OW_OUT := True\<rparr>) example_lib example_rerun ''out/a.jpg''
                 (createCardWithBleed (white_card 40 40) ''jpeg'') ''jpeg'' of
            (err, fs') \<Rightarrow> (err, fs', [Adding (Base ''in/a.jpg'')]))
   \<and> snd (snd (handleWriteImage (default_flags\<lparr>OW_OUT := True\<rparr>) example_lib example_rerun
                  ''in/a.jpg'' ''out'')) \<noteq> [Skipping (Base ''in/a.jpg'')]"
proof -
  have a: "example_rerun ''in/a.jpg'' = Some (File [2])"
    and n: "example_rerun ''out/a.jpg'' = None"
    and o: "example_rerun ''out/a.png'' = Some (File [80, 0])"
    by (simp_all add: example_rerun_def example_fs_def)
  have d: "image_Decode example_lib (File [2]) = Some (white_card 40 40, ''jpeg'')"
    by (simp add: image_Decode_def example_lib_def)
  have c: "''out/a.jpg'' = Join example_lib ''out'' (Base ''in/a.jpg'')"
    by (simp add: example_lib_def Base_examples)
  have f: "''png'' = (if OUT_FMT (default_flags\<lparr>OW_OUT := True\<rparr>) = ''auto'' then ''jpeg''
                       else OUT_FMT (default_flags\<lparr>OW_OUT := True\<rparr>))"
    by (simp add: default_flags_def)
  have e: "Ext ''out/a.jpg'' = ''.jpg''" by (simp add: Ext_def)
  have p: "''out/a.png'' = TrimSuffix ''out/a.jpg'' (Ext ''out/a.jpg'') @ ''.'' @ ''png''"
    by (simp add: e TrimSuffix_def HasSuffix_def)
  note t = skip_check_tests_unreplaced_path [of example_rerun "''in/a.jpg''" "File [2]" example_lib
      "white_card 40 40" "''jpeg''" "''out/a.jpg''" "''out''" "''png''" "default_flags\<lparr>OW_OUT := True\<rparr>"
      "''out/a.png''", OF a d c f p]
  have h1: "handleWriteImage (default_flags\<lparr>OW_OUT := True\<rparr>) example_lib example_rerun ''in/a.jpg'' ''out''
       = (case saveImage (default_flags\<lparr>OW_OUT := True\<rparr>) example_lib example_rerun ''out/a.jpg''
                 (createCardWithBleed (white_card 40 40) ''jpeg'') ''jpeg'' of
            (err, fs') \<Rightarrow> (err, fs', [Adding (Base ''in/a.jpg'')]))"
    using t n by blast
  have h2: "snd (snd (handleWriteImage (default_flags\<lparr>OW_OUT := True\<rparr>) example_lib example_rerun
                  ''in/a.jpg'' ''out'')) \<noteq> [Skipping (Base ''in/a.jpg'')]"
    using t n by blast
  have ne: "Ext ''out/a.jpg'' \<noteq> ''.'' @ ''png''" by (simp add: e)
  show ?thesis by (intro conjI) (rule a d c p ne n o h1 h2)+
qed

subsection \<open>The worker\<close>












subsection \<open>Two defects, evaluated\<close>

text \<open>
  Claim C3 says that with the overwrite flag off an existing output file is skipped. The
  program skips when the flag is on: with the default flags a file at the output path,
  whatever it holds, is created anew and encoded again, and a second run on the same input
  prints that it adds the bleed, as the first did.
\<close>

theorem handleWriteImage_rewrites_existing_output:
  "OW_OUT default_flags = False
   \<and> example_existing ''out/a.png'' = Some (File [9, 9])
   \<and> handleWriteImage default_flags example_lib example_existing ''in/a.png'' ''out''
     = (None, example_existing(''out/a.png'' \<mapsto> File [80, 255]), [Adding ''a.png''])
   \<and> (case main default_flags example_lib example_batch ''in/a.png'' ''out'' of
        (st1, fs1, out1) \<Rightarrow>
          (case main default_flags example_lib fs1 ''in/a.png'' ''out'' of
             (st2, fs2, out2) \<Rightarrow> (fs1 ''out/a.png'', out1, fs2 ''out/a.png'', out2)))
     = (Some (File [80, 255]), [Adding ''a.png'', Done ''out''],
        Some (File [80, 255]), [Adding ''a.png'', Done ''out''])"
proof -
  have a: "OW_OUT default_flags = False" by (simp add: default_flags_def)
  have b: "example_existing ''out/a.png'' = Some (File [9, 9])"
    by (simp add: example_existing_def example_fs_def)
  have c: "(case main default_flags example_lib example_batch ''in/a.png'' ''out'' of
        (st1, fs1, out1) \<Rightarrow>
          (case main default_flags example_lib fs1 ''in/a.png'' ''out'' of
             (st2, fs2, out2) \<Rightarrow> (fs1 ''out/a.png'', out1, fs2 ''out/a.png'', out2)))
     = (Some (File [80, 255]), [Adding ''a.png'', Done ''out''],
        Some (File [80, 255]), [Adding ''a.png'', Done ''out''])"
    by code_simp
  have d: "handleWriteImage default_flags example_lib example_existing ''in/a.png'' ''out''
     = (None, example_existing(''out/a.png'' \<mapsto> File [80, 255]), [Adding ''a.png''])"
  proof -
    have px: "Pix (createCardWithBleed (white_card 40 40) ''png'') 2 2
        = \<lparr>cR = 255, cG = 255, cB = 255, cA = 255\<rparr>" by code_simp
    have e: "Ext ''out/a.png'' = ''.png''" by (simp add: Ext_def)
    have i: "example_existing ''in/a.png'' = Some (File [1])"
      by (simp add: example_existing_def example_fs_def)
    show ?thesis
      by (simp add: handleWriteImage_def Let_def i b image_Decode_def example_lib_def
          default_flags_def Base_examples saveImage_def e TrimSuffix_def HasSuffix_def os_Create_def
          write_encoded_def px)
  qed
  show ?thesis by (intro conjI) (rule a b c d)+
qed

text \<open>
  Claim C4 says that corner repair needs the corner-fix option, which is off by default. The
  program does not read the flag \<open>JPG_CORNER_FIX\<close>; it tests the variable \<open>cornerFix\<close>, which
  is true. With the default flags the corner pixel of a white JPEG is written black, and that
  of the same image as a PNG stays white.
\<close>

theorem corner_repair_with_default_flags:
  "JPG_CORNER_FIX default_flags = False
   \<and> (case main default_flags example_lib example_batch ''in/c.jpg'' ''out'' of
        (st, fs, out) \<Rightarrow> (st, fs ''out/c.png'', out))
     = (0, Some (File [80, 0]), [Adding ''c.jpg'', Done ''out''])
   \<and> (case main default_flags example_lib example_batch ''in/a.png'' ''out'' of
        (st, fs, out) \<Rightarrow> (st, fs ''out/a.png'', out))
     = (0, Some (File [80, 255]), [Adding ''a.png'', Done ''out''])
   \<and> to_rgba (At (white_card 40 40) 0 0) = \<lparr>cR = 255, cG = 255, cB = 255, cA = 255\<rparr>"
proof -
  have "JPG_CORNER_FIX default_flags = False" by (simp add: default_flags_def)
  moreover have "(case main default_flags example_lib example_batch ''in/c.jpg'' ''out'' of
        (st, fs, out) \<Rightarrow> (st, fs ''out/c.png'', out))
     = (0, Some (File [80, 0]), [Adding ''c.jpg'', Done ''out''])"
    by code_simp
  moreover have "(case main default_flags example_lib example_batch ''in/a.png'' ''out'' of
        (st, fs, out) \<Rightarrow> (st, fs ''out/a.png'', out))
     = (0, Some (File [80, 255]), [Adding ''a.png'', Done ''out''])"
    by code_simp
  moreover have "to_rgba (At (white_card 40 40) 0 0) = \<lparr>cR = 255, cG = 255, cB = 255, cA = 255\<rparr>"
    by code_simp
  ultimately show ?thesis by simp
qed

end
